(* ===== verification/PosPrelude.thy ===== *)
theory PosPrelude
  imports Main "HOL-Library.Word"
begin

text \<open>
  Shared vocabulary of the development: the widths of the machine integers of the sources,
  the two ways a C++ call can stop without a result (a failed \<open>assert\<close> and an access outside an
  array), the sequencing of calls that may stop, and the generic facts on words, lists and
  finite sets that several components use.

  An operation of a class is a function from the state of the object (a record) to the returned
  value paired with the new state. An operation that contains an \<open>assert\<close> or an unchecked array
  access returns a value of \<open>fault + 'a\<close>: \<open>Inl\<close> where the process stops, \<open>Inr\<close> where the call
  returns. Unsigned quantities whose wrap-around can be observed are words; indices and sizes are
  natural numbers, with the truncation of the source written out by \<open>u32\<close> and \<open>u64\<close>.
\<close>

unbundle bit_operations_syntax

section \<open>Machine integers\<close>

type_synonym uint32 = "32 word"
type_synonym uint64 = "64 word"

definition u32 :: "nat \<Rightarrow> nat" where
  "u32 n = n mod 2 ^ 32"

definition u64 :: "nat \<Rightarrow> nat" where
  "u64 n = n mod 2 ^ 64"

lemma u32_less [simp]: "u32 n < 2 ^ 32" "u32 n < 4294967296"
  by (simp_all add: u32_def)

lemma u32_id [simp]: "n < 2 ^ 32 \<Longrightarrow> u32 n = n" "n < 4294967296 \<Longrightarrow> u32 n = n"
  by (simp_all add: u32_def)

lemma u64_id [simp]: "n < 2 ^ 64 \<Longrightarrow> u64 n = n" "n < 18446744073709551616 \<Longrightarrow> u64 n = n"
  by (simp_all add: u64_def)

lemma u32_le [simp]: "u32 n \<le> n"
  by (simp add: u32_def)

lemma u64_le [simp]: "u64 n \<le> n"
  by (simp add: u64_def)

text \<open>Subtraction of unsigned 32 bit numbers.\<close>

lemma u32_minus:
  assumes "b \<le> a" "a < 2 ^ 32"
  shows "u32 (a + 2 ^ 32 - b) = a - b"
proof -
  have "a + 2 ^ 32 - b = (a - b) + 2 ^ 32" using assms(1) by (rule add_diff_assoc2 [symmetric])
  then have "u32 (a + 2 ^ 32 - b) = (a - b) mod 2 ^ 32" unfolding u32_def by (simp only: mod_add_self2)
  also have "\<dots> = a - b" using assms(2) by (intro mod_less) linarith
  finally show ?thesis .
qed

lemma u64_minus:
  assumes "b \<le> a" "a - b < 2 ^ 64"
  shows "u64 (a + 2 ^ 64 - b) = a - b"
proof -
  have "a + 2 ^ 64 - b = (a - b) + 2 ^ 64" using assms(1) by (rule add_diff_assoc2 [symmetric])
  then have "u64 (a + 2 ^ 64 - b) = (a - b) mod 2 ^ 64" unfolding u64_def by (simp only: mod_add_self2)
  also have "\<dots> = a - b" using assms(2) by (rule mod_less)
  finally show ?thesis .
qed

section \<open>Calls that may stop the process\<close>

datatype fault = AssertFailed | OutOfBounds | Exception

type_synonym 'a result = "fault + 'a"

fun andThen :: "'a result \<Rightarrow> ('a \<Rightarrow> 'b result) \<Rightarrow> 'b result" where
  "andThen (Inl e) k = Inl e"
| "andThen (Inr x) k = k x"

lemma andThen_eq_Inr: "andThen r k = Inr y \<longleftrightarrow> (\<exists>x. r = Inr x \<and> k x = Inr y)"
  by (cases r) auto

lemma andThen_eq_Inl: "andThen r k = Inl e \<longleftrightarrow> r = Inl e \<or> (\<exists>x. r = Inr x \<and> k x = Inl e)"
  by (cases r) auto

fun_cases andThen_InrE: "andThen r k = Inr y"

definition assertion :: "bool \<Rightarrow> unit result" where
  "assertion b = (if b then Inr () else Inl AssertFailed)"

lemma assertion_simps [simp]:
  "assertion True = Inr ()"
  "assertion False = Inl AssertFailed"
  "(assertion b = Inr u) = b"
  by (simp_all add: assertion_def)

section \<open>Collections of simplification and introduction rules\<close>

named_theorems pos_defs \<open>definitions of the operations, unfolded in functional proofs\<close>
named_theorems pos_frame \<open>fields an operation leaves unchanged\<close>
named_theorems pos_inv \<open>preservation of the invariant of a component\<close>

section \<open>Repeated calls\<close>

text \<open>The values that \<open>n\<close> calls of an operation return, in order, and the state after them.\<close>

primrec takes :: "('s \<Rightarrow> nat \<times> 's) \<Rightarrow> nat \<Rightarrow> 's \<Rightarrow> nat list \<times> 's" where
  "takes take_slot 0 s = ([], s)"
| "takes take_slot (Suc n) s =
     (let (i, s1) = take_slot s; (xs, s2) = takes take_slot n s1 in (i # xs, s2))"

section \<open>Words\<close>

lemma and_exp_eq_0_bit [simp]: "(w :: 'a::len word) AND 2 ^ c = 0 \<longleftrightarrow> \<not> bit w c"
  by (rule and_exp_eq_0_iff_not_bit)

lemma unat_Suc_less: "unat (w :: 'a::len word) < 2 ^ LENGTH('a) - 1 \<Longrightarrow> unat (w + 1) = Suc (unat w)"
  by (simp add: unat_word_ariths)

lemma unat_dec: "unat (w :: 'a::len word) > 0 \<Longrightarrow> unat (w - 1) = unat w - 1"
  by (metis Suc_leI One_nat_def unat_1 unat_sub word_le_nat_alt)

lemma bit_uint64_bound: "bit (w :: uint64) i \<Longrightarrow> i < 64"
  using bit_imp_le_length [of w i] by simp

section \<open>Natural numbers\<close>

text \<open>Positions in a table of \<open>b\<close> rows of \<open>c\<close> entries.\<close>

lemma mult_add_less:
  assumes "a < b" "i < c"
  shows "a * c + i < b * (c :: nat)"
proof -
  have "a * c + i < Suc a * c" using assms(2) by simp
  also have "\<dots> \<le> b * c" using assms(1) by (intro mult_le_mono1) simp
  finally show ?thesis .
qed

section \<open>Finite sets of natural numbers\<close>

lemma Least_Min:
  assumes "finite A" "A \<noteq> {}"
  shows "(LEAST x. x \<in> A) = Min (A :: nat set)"
  using assms by (intro Least_equality) auto

lemma card_insert_fresh: "finite A \<Longrightarrow> x \<notin> A \<Longrightarrow> card (insert x A) = Suc (card A)"
  by simp

lemma card_bounded: "A \<subseteq> {..<n} \<Longrightarrow> card A \<le> (n :: nat)"
  using card_mono [of "{..<n}" A] by simp

lemma card_less_ex: "A \<subseteq> {..<n} \<Longrightarrow> card A < n \<Longrightarrow> \<exists>x<n. x \<notin> (A :: nat set)"
  by (metis card_lessThan less_irrefl lessThan_iff subset_antisym subsetI)

lemma card_full: "A \<subseteq> {..<n} \<Longrightarrow> card A = n \<longleftrightarrow> A = {..<(n :: nat)}"
  by (metis card_lessThan card_subset_eq finite_lessThan)

end
