(* ===== verification/Bitmap.thy ===== *)
theory Bitmap
  imports PosPrelude
begin

text \<open>
  The bitmap of \<^verbatim>\<open>src/lib/bitmap.cpp\<close>: class \<open>BitMap\<close> (an array of 64-bit words with a count of the
  bits set and the position set last) and class \<open>BitMapMutex\<close>, which runs the same operations under
  a mutex and is the allocator of write buffer stripes.

  The scans of the code read one word past the array before they compare the row with the number of
  entries; \<open>pastEnd\<close> is what memory holds there, so that the theorems hold whatever it is.
\<close>

section \<open>State\<close>

record BitMap =
  bmap :: "uint64 list"
  numBits :: nat
  numEntry :: nat
  numBitsSet :: uint64
  lastSetPosition :: nat
  pastEnd :: "nat \<Rightarrow> uint64"

abbreviation (input) BITMAP_ENTRY_BITS :: nat where
  "BITMAP_ENTRY_BITS \<equiv> 64"

section \<open>Operations of BitMap\<close>

definition mapWord :: "BitMap \<Rightarrow> nat \<Rightarrow> uint64" where
  "mapWord bm row = (if row < length (bmap bm) then bmap bm ! row else pastEnd bm row)"

definition ffsl :: "uint64 \<Rightarrow> nat" where
  "ffsl x = (case find (bit x) [0..<64] of None \<Rightarrow> 0 | Some i \<Rightarrow> Suc i)"

definition ffzl :: "uint64 \<Rightarrow> nat" where
  "ffzl x = ffsl (NOT x)"

text \<open>
  \<open>(uint64_t)(std::pow(2, numSetBits))\<close>: exact below 64; at 64 the conversion of the double to
  \<open>uint64_t\<close> is undefined in C++, and \<open>ovf\<close> is what the platform gives.
\<close>

definition BitMap_GetMask :: "uint64 \<Rightarrow> nat \<Rightarrow> nat \<Rightarrow> uint64" where
  "BitMap_GetMask ovf numSetBits offset =
     push_bit offset ((if numSetBits < 64 then 2 ^ numSetBits else ovf) - 1)"

definition BitMap_IsSetBit :: "BitMap \<Rightarrow> nat \<Rightarrow> bool" where
  "BitMap_IsSetBit bm bitOffset =
     (let row = bitOffset div BITMAP_ENTRY_BITS; col = bitOffset mod BITMAP_ENTRY_BITS
      in mapWord bm row AND push_bit col 1 \<noteq> 0)"

definition BitMap_IsValidBit :: "BitMap \<Rightarrow> nat \<Rightarrow> bool" where
  "BitMap_IsValidBit bm bitOffset = (bitOffset < numBits bm)"

definition BitMap_SetNumBitsSet :: "uint64 \<Rightarrow> BitMap \<Rightarrow> bool \<times> BitMap" where
  "BitMap_SetNumBitsSet n bm = (True, bm\<lparr>numBitsSet := n\<rparr>)"

definition BitMap_SetBit :: "nat \<Rightarrow> BitMap \<Rightarrow> bool \<times> BitMap" where
  "BitMap_SetBit bitOffset bm =
     (if \<not> BitMap_IsValidBit bm bitOffset then (False, bm)
      else if BitMap_IsSetBit bm bitOffset then (True, bm)
      else let row = bitOffset div BITMAP_ENTRY_BITS; col = bitOffset mod BITMAP_ENTRY_BITS
        in (True, bm\<lparr>bmap := (bmap bm)[row := bmap bm ! row OR push_bit col 1],
                     numBitsSet := numBitsSet bm + 1,
                     lastSetPosition := bitOffset\<rparr>))"

definition BitMap_ClearBit :: "nat \<Rightarrow> BitMap \<Rightarrow> bool \<times> BitMap" where
  "BitMap_ClearBit bitOffset bm =
     (if \<not> BitMap_IsValidBit bm bitOffset then (False, bm)
      else if \<not> BitMap_IsSetBit bm bitOffset then (True, bm)
      else let row = bitOffset div BITMAP_ENTRY_BITS; col = bitOffset mod BITMAP_ENTRY_BITS
        in (True, bm\<lparr>bmap := (bmap bm)[row := bmap bm ! row AND NOT (push_bit col 1)],
                     numBitsSet := numBitsSet bm - 1\<rparr>))"

text \<open>The columns of one row that the range covers, as the body of the loop computes them.\<close>

definition startCol :: "nat \<Rightarrow> nat \<Rightarrow> nat" where
  "startCol begn row =
     (if row = begn div BITMAP_ENTRY_BITS then begn mod BITMAP_ENTRY_BITS else 0)"

definition endCol :: "nat \<Rightarrow> nat \<Rightarrow> nat" where
  "endCol endd row =
     (if row = endd div BITMAP_ENTRY_BITS then endd mod BITMAP_ENTRY_BITS else BITMAP_ENTRY_BITS - 1)"

definition ClearBits_row :: "uint64 \<Rightarrow> nat \<Rightarrow> nat \<Rightarrow> nat \<Rightarrow> BitMap \<Rightarrow> BitMap" where
  "ClearBits_row ovf begn endd row bm =
     (let numClearBits = of_nat (endCol endd row) - of_nat (startCol begn row) + 1 :: uint64;
          mask = BitMap_GetMask ovf (unat numClearBits) (startCol begn row)
      in bm\<lparr>bmap := (bmap bm)[row := bmap bm ! row AND NOT mask],
            numBitsSet := numBitsSet bm - numClearBits\<rparr>)"

definition BitMap_ClearBits :: "uint64 \<Rightarrow> nat \<Rightarrow> nat \<Rightarrow> BitMap \<Rightarrow> bool \<times> BitMap" where
  "BitMap_ClearBits ovf begn endd bm =
     (if \<not> BitMap_IsValidBit bm begn \<or> \<not> BitMap_IsValidBit bm endd then (False, bm)
      else (True, fold (ClearBits_row ovf begn endd)
             [begn div BITMAP_ENTRY_BITS ..< Suc (endd div BITMAP_ENTRY_BITS)] bm))"

definition BitMap_ResetBitmap :: "BitMap \<Rightarrow> BitMap" where
  "BitMap_ResetBitmap bm =
     (fold (\<lambda>row b. b\<lparr>bmap := (bmap b)[row := 0]\<rparr>) [0..<numEntry bm] bm)\<lparr>numBitsSet := 0\<rparr>"

definition BitMap_FlipBit :: "nat \<Rightarrow> BitMap \<Rightarrow> BitMap result" where
  "BitMap_FlipBit b bm =
     (let row = b div BITMAP_ENTRY_BITS; col = b mod BITMAP_ENTRY_BITS;
          isSet = (mapWord bm row AND push_bit col 1 \<noteq> 0)
      in if row \<ge> length (bmap bm) then Inl OutOfBounds
         else Inr (bm\<lparr>bmap := (bmap bm)[row :=
               (if isSet then bmap bm ! row AND NOT (push_bit col 1)
                else bmap bm ! row OR push_bit col 1)]\<rparr>))"

text \<open>The tail shared by the scans for a clear bit: the row and the position in it, or the whole size.\<close>

definition offsetOrNumBits :: "BitMap \<Rightarrow> nat \<Rightarrow> nat \<Rightarrow> nat" where
  "offsetOrNumBits bm row offset =
     (let off = u64 (offset + row * BITMAP_ENTRY_BITS - 1)
      in if BitMap_IsValidBit bm off then off else numBits bm)"

function FindFirstZero_loop :: "BitMap \<Rightarrow> nat \<Rightarrow> (nat \<times> nat) option" where
  "FindFirstZero_loop bm row =
     (let offset = ffzl (mapWord bm row)
      in if offset = 0
         then if Suc row \<ge> numEntry bm then None else FindFirstZero_loop bm (Suc row)
         else Some (row, offset))"
  by pat_completeness auto
termination
  by (relation "measure (\<lambda>(bm, row). numEntry bm - row)") auto

definition BitMap_FindFirstZero :: "BitMap \<Rightarrow> nat" where
  "BitMap_FindFirstZero bm =
     (case FindFirstZero_loop bm 0 of
        None \<Rightarrow> numBits bm
      | Some (row, offset) \<Rightarrow> offsetOrNumBits bm row offset)"

function FindFirstZeroFrom_loop :: "BitMap \<Rightarrow> nat \<Rightarrow> (nat \<times> nat) option" where
  "FindFirstZeroFrom_loop bm row =
     (let offset = ffzl (mapWord bm (Suc row))
      in if offset = 0
         then if Suc row \<ge> numEntry bm then None else FindFirstZeroFrom_loop bm (Suc row)
         else Some (Suc row, offset))"
  by pat_completeness auto
termination
  by (relation "measure (\<lambda>(bm, row). numEntry bm - row)") auto

definition FindFirstZeroFrom_scan :: "BitMap \<Rightarrow> nat \<Rightarrow> (nat \<times> nat) option" where
  "FindFirstZeroFrom_scan bm begn =
     (let row = begn div BITMAP_ENTRY_BITS; col = begn mod BITMAP_ENTRY_BITS;
          val = mapWord bm row OR (push_bit col 1 - 1);
          offset = ffzl val
      in if offset = 0 then FindFirstZeroFrom_loop bm row else Some (row, offset))"

definition BitMap_FindFirstZeroFrom :: "BitMap \<Rightarrow> nat \<Rightarrow> nat" where
  "BitMap_FindFirstZeroFrom bm begn =
     (if \<not> BitMap_IsValidBit bm begn then numBits bm
      else case FindFirstZeroFrom_scan bm begn of
             None \<Rightarrow> numBits bm
           | Some (row, offset) \<Rightarrow> offsetOrNumBits bm row offset)"

definition BitMap_FindFirstZeroIn :: "BitMap \<Rightarrow> nat \<Rightarrow> nat \<Rightarrow> nat" where
  "BitMap_FindFirstZeroIn bm begn endd =
     (if \<not> BitMap_IsValidBit bm begn \<or> \<not> BitMap_IsValidBit bm endd then numBits bm
      else case FindFirstZeroFrom_scan bm begn of
             None \<Rightarrow> numBits bm
           | Some (row, offset) \<Rightarrow>
               let off = u64 (offset + row * BITMAP_ENTRY_BITS - 1)
               in if \<not> BitMap_IsValidBit bm off \<or> off > endd then numBits bm else off)"

text \<open>
  \<open>FindFirstSet\<close> computes in 32 bits, and its loop compares a 32-bit row with the 64-bit number of
  entries: \<open>None\<close> would be a scan that never returns.
\<close>

partial_function (option) FindFirstSet_loop :: "BitMap \<Rightarrow> nat \<Rightarrow> (nat \<times> nat) option" where
  "FindFirstSet_loop bm row =
     (let row' = u32 (Suc row)
      in if row' = numEntry bm then Some (row', BITMAP_ENTRY_BITS)
         else let offset = ffsl (mapWord bm row')
           in if offset = 0 then FindFirstSet_loop bm row' else Some (row', offset))"

definition BitMap_FindFirstSet :: "BitMap \<Rightarrow> nat \<Rightarrow> nat option" where
  "BitMap_FindFirstSet bm begn =
     (if \<not> BitMap_IsValidBit bm begn then Some (numBits bm)
      else
        let row = u32 (begn div BITMAP_ENTRY_BITS);
            col = u32 (begn mod BITMAP_ENTRY_BITS);
            begin_val = mapWord bm row AND NOT (push_bit col 1 - 1);
            offset = ffsl begin_val
        in case (if offset = 0 then FindFirstSet_loop bm row else Some (row, offset)) of
             None \<Rightarrow> None
           | Some (row', offset') \<Rightarrow>
               let off = u32 (offset' + row' * BITMAP_ENTRY_BITS - 1)
               in Some (if BitMap_IsValidBit bm off then off else numBits bm))"

definition BitMap_FindNextZero :: "BitMap \<Rightarrow> nat" where
  "BitMap_FindNextZero bm =
     (let posToBegin = u64 (lastSetPosition bm + 1) mod numBits bm;
          foundPos = BitMap_FindFirstZeroFrom bm posToBegin
      in if foundPos = numBits bm
         then if unat (numBitsSet bm) \<ge> numBits bm then numBits bm
              else BitMap_FindFirstZeroFrom bm 0
         else foundPos)"

definition BitMap_Set :: "BitMap \<Rightarrow> BitMap \<Rightarrow> bool \<times> BitMap" where
  "BitMap_Set inputBitMap bm =
     (if numEntry bm \<noteq> numEntry inputBitMap then (False, bm)
      else (True, fold (\<lambda>row b. b\<lparr>bmap := (bmap b)[row := bmap b ! row OR mapWord inputBitMap row]\<rparr>)
              [0..<numEntry bm] bm))"

definition BitMap_new :: "(nat \<Rightarrow> uint64) \<Rightarrow> nat \<Rightarrow> BitMap result" where
  "BitMap_new mem totalBits =
     andThen (assertion (totalBits \<noteq> 0)) (\<lambda>_.
       let row = totalBits div BITMAP_ENTRY_BITS; col = totalBits mod BITMAP_ENTRY_BITS;
           entries = (if col > 0 then row + 1 else row)
       in Inr \<lparr>bmap = replicate entries 0, numBits = totalBits, numEntry = entries,
               numBitsSet = 0, lastSetPosition = totalBits - 1, pastEnd = mem\<rparr>)"

section \<open>Operations of BitMapMutex\<close>

text \<open>Each operation holds the mutex for its whole body, so it is one step on the bitmap.\<close>

definition BitMapMutex_SetFirstZeroBit :: "BitMap \<Rightarrow> nat \<times> BitMap" where
  "BitMapMutex_SetFirstZeroBit bm =
     (let b = BitMap_FindFirstZero bm in (b, snd (BitMap_SetBit b bm)))"

definition BitMapMutex_SetFirstZeroBitFrom :: "nat \<Rightarrow> BitMap \<Rightarrow> nat \<times> BitMap" where
  "BitMapMutex_SetFirstZeroBitFrom begn bm =
     (let b = BitMap_FindFirstZeroFrom bm begn in (b, snd (BitMap_SetBit b bm)))"

definition BitMapMutex_SetFirstZeroBitIn :: "nat \<Rightarrow> nat \<Rightarrow> BitMap \<Rightarrow> nat \<times> BitMap" where
  "BitMapMutex_SetFirstZeroBitIn begn endd bm =
     (let b = u32 (BitMap_FindFirstZeroIn bm begn endd) in (b, snd (BitMap_SetBit b bm)))"

definition BitMapMutex_SetNextZeroBit :: "BitMap \<Rightarrow> nat \<times> BitMap" where
  "BitMapMutex_SetNextZeroBit bm =
     (let b = u32 (BitMap_FindNextZero bm) in (b, snd (BitMap_SetBit b bm)))"

definition BitMapMutex_GetNumBitsSetIn :: "nat \<Rightarrow> nat \<Rightarrow> BitMap \<Rightarrow> nat result" where
  "BitMapMutex_GetNumBitsSetIn begn endd bm =
     andThen (assertion (endd \<le> numBits bm)) (\<lambda>_.
       Inr (fold (\<lambda>bitOffset ret. if BitMap_IsSetBit bm bitOffset then Suc ret else ret)
              [begn..<Suc endd] 0))"

definition BitMapMutex_SetBitMap :: "BitMap \<Rightarrow> BitMap \<Rightarrow> bool \<times> BitMap" where
  "BitMapMutex_SetBitMap inputBitMapMutex bm = BitMap_Set inputBitMapMutex bm"

text \<open>The remaining operations only take the mutex around the operation of \<open>BitMap\<close>.\<close>

definition BitMapMutex_FindFirstSetBit :: "BitMap \<Rightarrow> nat \<Rightarrow> nat option" where
  [simp]: "BitMapMutex_FindFirstSetBit bm begn = BitMap_FindFirstSet bm begn"

definition BitMapMutex_SetBit :: "nat \<Rightarrow> BitMap \<Rightarrow> bool \<times> BitMap" where
  [simp]: "BitMapMutex_SetBit b bm = BitMap_SetBit b bm"

definition BitMapMutex_ClearBit :: "nat \<Rightarrow> BitMap \<Rightarrow> bool \<times> BitMap" where
  [simp]: "BitMapMutex_ClearBit b bm = BitMap_ClearBit b bm"

definition BitMapMutex_ClearBits :: "uint64 \<Rightarrow> nat \<Rightarrow> nat \<Rightarrow> BitMap \<Rightarrow> bool \<times> BitMap" where
  [simp]: "BitMapMutex_ClearBits ovf begn endd bm = BitMap_ClearBits ovf begn endd bm"

definition BitMapMutex_ResetBitmap :: "BitMap \<Rightarrow> BitMap" where
  [simp]: "BitMapMutex_ResetBitmap bm = BitMap_ResetBitmap bm"

definition BitMapMutex_SetNumBitsSet :: "uint64 \<Rightarrow> BitMap \<Rightarrow> BitMap" where
  [simp]: "BitMapMutex_SetNumBitsSet n bm = snd (BitMap_SetNumBitsSet n bm)"

definition BitMapMutex_FlipBit :: "nat \<Rightarrow> BitMap \<Rightarrow> BitMap result" where
  [simp]: "BitMapMutex_FlipBit b bm = BitMap_FlipBit b bm"

declare FindFirstZero_loop.simps [simp del] FindFirstZeroFrom_loop.simps [simp del]

section \<open>Abstraction and invariant\<close>

text \<open>The bitmap as a set of positions, and what the class keeps true between its fields.\<close>

definition bits :: "BitMap \<Rightarrow> nat set" where
  "bits bm = {i. i < numBits bm \<and> BitMap_IsSetBit bm i}"

definition bitmap_wf :: "BitMap \<Rightarrow> bool" where
  "bitmap_wf bm \<longleftrightarrow> 0 < numBits bm \<and> numBits bm \<le> 2 ^ 63 \<and>
     numEntry bm = (numBits bm + 63) div 64 \<and> length (bmap bm) = numEntry bm \<and>
     lastSetPosition bm < numBits bm"

definition bitmap_inv :: "BitMap \<Rightarrow> bool" where
  "bitmap_inv bm \<longleftrightarrow> bitmap_wf bm \<and> unat (numBitsSet bm) = card (bits bm)"

section \<open>Reading a bit\<close>

lemma IsSetBit_row: "j < 64 \<Longrightarrow> BitMap_IsSetBit bm (r * 64 + j) \<longleftrightarrow> bit (mapWord bm r) j"
  by (simp add: BitMap_IsSetBit_def Let_def)

lemma IsSetBit_iff: "BitMap_IsSetBit bm i \<longleftrightarrow> bit (mapWord bm (i div 64)) (i mod 64)"
  by (simp add: BitMap_IsSetBit_def Let_def)

lemma ffsl_cases:
  "(ffsl x = 0 \<and> (\<forall>j. \<not> bit x j)) \<or>
   (\<exists>i<64. ffsl x = Suc i \<and> bit x i \<and> (\<forall>k<i. \<not> bit x k))"
proof (cases "find (bit x) [0..<64]")
  case None
  then show ?thesis
    by (simp add: ffsl_def) (auto simp: find_None_iff dest: bit_uint64_bound)
next
  case (Some i)
  then show ?thesis
    by (simp add: ffsl_def) (auto simp: find_Some_iff)
qed

lemma ffsl_zero: "ffsl x = 0 \<longleftrightarrow> (\<forall>j<64. \<not> bit x j)"
  using ffsl_cases [of x] by auto

lemma ffsl_Suc: "ffsl x = Suc j \<longleftrightarrow> j < 64 \<and> bit x j \<and> (\<forall>k<j. \<not> bit x k)"
  using ffsl_cases [of x] by (metis linorder_neqE_nat nat.inject nat.distinct(1))

lemma ffzl_zero: "ffzl x = 0 \<longleftrightarrow> (\<forall>j<64. bit x j)"
  by (auto simp: ffzl_def ffsl_zero bit_simps)

lemma ffzl_Suc: "ffzl x = Suc j \<longleftrightarrow> j < 64 \<and> \<not> bit x j \<and> (\<forall>k<j. bit x k)"
  by (auto simp: ffzl_def ffsl_Suc bit_simps)

lemma bit_below_mask: "c < 64 \<Longrightarrow> bit (push_bit c 1 - 1 :: uint64) j \<longleftrightarrow> j < c"
  by (auto simp: push_bit_eq_mult bit_mask_iff simp flip: mask_eq_exp_minus_1)

lemma wf_row: "bitmap_wf bm \<Longrightarrow> i < numBits bm \<Longrightarrow> i div 64 < length (bmap bm)"
  by (auto simp: bitmap_wf_def)

lemma finite_bits [simp]: "finite (bits bm)"
  by (simp add: bits_def)

lemma bits_subset: "bits bm \<subseteq> {..<numBits bm}"
  by (auto simp: bits_def)

lemma card_bits_le: "card (bits bm) \<le> numBits bm"
  by (rule card_bounded [OF bits_subset])

section \<open>Setting and clearing\<close>

lemma mapWord_update:
  assumes "row < length (bmap bm)"
  shows "mapWord (bm\<lparr>bmap := (bmap bm)[row := w], numBitsSet := n, lastSetPosition := l\<rparr>) r =
         (if r = row then w else mapWord bm r)"
    and "mapWord (bm\<lparr>bmap := (bmap bm)[row := w], numBitsSet := n\<rparr>) r =
         (if r = row then w else mapWord bm r)"
    and "mapWord (bm\<lparr>bmap := (bmap bm)[row := w]\<rparr>) r = (if r = row then w else mapWord bm r)"
  using assms by (auto simp: mapWord_def nth_list_update)

lemma div_mod_64_eq: "(i :: nat) = j \<longleftrightarrow> i div 64 = j div 64 \<and> i mod 64 = j mod 64"
  by (metis div_mult_mod_eq)

lemma SetBit_IsSetBit:
  assumes "bitmap_wf bm" "b < numBits bm"
  shows "BitMap_IsSetBit (snd (BitMap_SetBit b bm)) i \<longleftrightarrow> i = b \<or> BitMap_IsSetBit bm i"
  using wf_row [OF assms] assms
  by (auto simp: BitMap_SetBit_def BitMap_IsValidBit_def IsSetBit_iff Let_def mapWord_update
        bit_simps div_mod_64_eq [of i b] mapWord_def nth_list_update)

lemma ClearBit_IsSetBit:
  assumes "bitmap_wf bm" "b < numBits bm"
  shows "BitMap_IsSetBit (snd (BitMap_ClearBit b bm)) i \<longleftrightarrow> i \<noteq> b \<and> BitMap_IsSetBit bm i"
  using wf_row [OF assms] assms
  by (auto simp: BitMap_ClearBit_def BitMap_IsValidBit_def IsSetBit_iff Let_def 
        bit_simps div_mod_64_eq [of i b] mapWord_def nth_list_update)

lemma SetBit_new:
  assumes "b < numBits bm" "\<not> BitMap_IsSetBit bm b"
  shows "numBitsSet (snd (BitMap_SetBit b bm)) = numBitsSet bm + 1"
    "lastSetPosition (snd (BitMap_SetBit b bm)) = b"
  using assms by (simp_all add: BitMap_SetBit_def BitMap_IsValidBit_def Let_def)

lemma SetBit_frame [pos_frame, simp]:
  "numBits (snd (BitMap_SetBit b bm)) = numBits bm"
  "numEntry (snd (BitMap_SetBit b bm)) = numEntry bm"
  "length (bmap (snd (BitMap_SetBit b bm))) = length (bmap bm)"
  "pastEnd (snd (BitMap_SetBit b bm)) = pastEnd bm"
  by (simp_all add: BitMap_SetBit_def Let_def)

lemma ClearBit_frame [pos_frame, simp]:
  "numBits (snd (BitMap_ClearBit b bm)) = numBits bm"
  "numEntry (snd (BitMap_ClearBit b bm)) = numEntry bm"
  "length (bmap (snd (BitMap_ClearBit b bm))) = length (bmap bm)"
  "lastSetPosition (snd (BitMap_ClearBit b bm)) = lastSetPosition bm"
  by (simp_all add: BitMap_ClearBit_def Let_def)

lemma SetBit_wf [pos_inv]: "bitmap_wf bm \<Longrightarrow> bitmap_wf (snd (BitMap_SetBit b bm))"
  by (auto simp: bitmap_wf_def BitMap_SetBit_def BitMap_IsValidBit_def Let_def)

lemma ClearBit_wf [pos_inv]: "bitmap_wf bm \<Longrightarrow> bitmap_wf (snd (BitMap_ClearBit b bm))"
  by (auto simp: bitmap_wf_def)

lemma bits_SetBit:
  "bitmap_wf bm \<Longrightarrow> b < numBits bm \<Longrightarrow> bits (snd (BitMap_SetBit b bm)) = insert b (bits bm)"
  by (auto simp: bits_def SetBit_IsSetBit)

lemma bits_ClearBit:
  "bitmap_wf bm \<Longrightarrow> b < numBits bm \<Longrightarrow> bits (snd (BitMap_ClearBit b bm)) = bits bm - {b}"
  by (auto simp: bits_def ClearBit_IsSetBit)

lemma SetBit_invalid: "\<not> b < numBits bm \<Longrightarrow> BitMap_SetBit b bm = (False, bm)"
  by (simp add: BitMap_SetBit_def BitMap_IsValidBit_def)

lemma ClearBit_invalid: "\<not> b < numBits bm \<Longrightarrow> BitMap_ClearBit b bm = (False, bm)"
  by (simp add: BitMap_ClearBit_def BitMap_IsValidBit_def)

lemma card_bits_bound: "bitmap_wf bm \<Longrightarrow> card (bits bm) < 2 ^ 64 - 1"
  using card_bits_le [of bm] by (simp add: bitmap_wf_def)

lemma SetBit_inv [pos_inv]: "bitmap_inv bm \<Longrightarrow> bitmap_inv (snd (BitMap_SetBit b bm))"
proof (cases "b < numBits bm \<and> \<not> BitMap_IsSetBit bm b")
  case True
  assume inv: "bitmap_inv bm"
  then have wf: "bitmap_wf bm" by (simp add: bitmap_inv_def)
  have "b \<notin> bits bm" using True by (simp add: bits_def)
  then have "card (bits (snd (BitMap_SetBit b bm))) = Suc (card (bits bm))"
    using True wf by (simp add: bits_SetBit)
  moreover have "unat (numBitsSet bm + 1) = Suc (unat (numBitsSet bm))"
    using inv card_bits_bound [OF wf] by (intro unat_Suc_less) (simp add: bitmap_inv_def)
  ultimately show ?thesis
    using True inv SetBit_wf [OF wf, of b]
    by (simp add: bitmap_inv_def BitMap_SetBit_def BitMap_IsValidBit_def Let_def)
next
  case False
  then show "bitmap_inv bm \<Longrightarrow> ?thesis"
    by (auto simp: BitMap_SetBit_def BitMap_IsValidBit_def)
qed

lemma ClearBit_inv [pos_inv]: "bitmap_inv bm \<Longrightarrow> bitmap_inv (snd (BitMap_ClearBit b bm))"
proof (cases "b < numBits bm \<and> BitMap_IsSetBit bm b")
  case True
  assume inv: "bitmap_inv bm"
  then have wf: "bitmap_wf bm" by (simp add: bitmap_inv_def)
  have b: "b \<in> bits bm" using True by (simp add: bits_def)
  then have "card (bits (snd (BitMap_ClearBit b bm))) = card (bits bm) - 1"
    using True wf by (simp add: bits_ClearBit)
  moreover have "0 < unat (numBitsSet bm)"
    using inv b by (auto simp: bitmap_inv_def card_gt_0_iff)
  then have "unat (numBitsSet bm - 1) = unat (numBitsSet bm) - 1"
    by (rule unat_dec)
  ultimately show ?thesis
    using True inv ClearBit_wf [OF wf, of b]
    by (simp add: bitmap_inv_def BitMap_ClearBit_def BitMap_IsValidBit_def Let_def)
next
  case False
  then show "bitmap_inv bm \<Longrightarrow> ?thesis"
    by (auto simp: BitMap_ClearBit_def BitMap_IsValidBit_def)
qed

section \<open>Scanning for a clear bit\<close>

definition allSet :: "BitMap \<Rightarrow> nat \<Rightarrow> nat \<Rightarrow> bool" where
  "allSet bm a b \<longleftrightarrow> (\<forall>i. a \<le> i \<and> i < b \<longrightarrow> BitMap_IsSetBit bm i)"

lemma allSet_append: "allSet bm a b \<Longrightarrow> allSet bm b c \<Longrightarrow> allSet bm a c"
  unfolding allSet_def by (meson leI)

lemma allSet_empty [simp]: "b \<le> a \<Longrightarrow> allSet bm a b"
  by (auto simp: allSet_def)

lemma in_row:
  assumes "r * 64 \<le> (i::nat)" "i < r * 64 + k" "k \<le> 64"
  obtains j where "i = r * 64 + j" "j < k" "j < 64"
  using assms by (metis add_less_cancel_left le_Suc_ex less_le_trans)

lemma allSet_rowI:
  assumes "\<And>j. j < k \<Longrightarrow> bit (mapWord bm r) j" "k \<le> 64"
  shows "allSet bm (r * 64) (r * 64 + k)"
  unfolding allSet_def using assms by (auto elim!: in_row simp: IsSetBit_row)

lemma full_row: "ffzl (mapWord bm r) = 0 \<Longrightarrow> allSet bm (r * 64) (Suc r * 64)"
  using allSet_rowI [of 64 bm r] by (simp add: ffzl_zero add.commute)

lemma first_zero_in_row:
  assumes "ffzl (mapWord bm r) = off" "0 < off"
  shows "off \<le> 64" "\<not> BitMap_IsSetBit bm (r * 64 + off - 1)"
    "allSet bm (r * 64) (r * 64 + off - 1)"
proof -
  obtain j where j: "off = Suc j" using assms(2) by (cases off) auto
  then have *: "j < 64" "\<not> bit (mapWord bm r) j" "\<forall>k<j. bit (mapWord bm r) k"
    using assms(1) by (simp_all add: ffzl_Suc)
  then show "off \<le> 64" "\<not> BitMap_IsSetBit bm (r * 64 + off - 1)"
    "allSet bm (r * 64) (r * 64 + off - 1)"
    using j allSet_rowI [of j bm r] by (simp_all add: IsSetBit_row)
qed

lemma FindFirstZeroFrom_loop_None:
  "FindFirstZeroFrom_loop bm row = None \<Longrightarrow> allSet bm (Suc row * 64) (numEntry bm * 64)"
proof (induction bm row rule: FindFirstZeroFrom_loop.induct)
  case (1 bm row)
  have off: "ffzl (mapWord bm (Suc row)) = 0"
    using "1.prems" by (subst (asm) FindFirstZeroFrom_loop.simps) (auto simp: Let_def split: if_splits)
  show ?case
  proof (cases "Suc row \<ge> numEntry bm")
    case False
    then have "FindFirstZeroFrom_loop bm (Suc row) = None"
      using "1.prems" off by (simp add: FindFirstZeroFrom_loop.simps [of bm row])
    then have "allSet bm (Suc (Suc row) * 64) (numEntry bm * 64)"
      using "1.IH" False off by simp
    with full_row [OF off] show ?thesis by (rule allSet_append)
  qed simp
qed

lemma FindFirstZeroFrom_loop_Some:
  "FindFirstZeroFrom_loop bm row = Some (r, off) \<Longrightarrow>
     row < r \<and> 0 < off \<and> off \<le> 64 \<and> \<not> BitMap_IsSetBit bm (r * 64 + off - 1) \<and>
     allSet bm (Suc row * 64) (r * 64 + off - 1)"
proof (induction bm row rule: FindFirstZeroFrom_loop.induct)
  case (1 bm row)
  show ?case
  proof (cases "ffzl (mapWord bm (Suc row)) = 0")
    case True
    then have "\<not> Suc row \<ge> numEntry bm \<and> FindFirstZeroFrom_loop bm (Suc row) = Some (r, off)"
      using "1.prems" by (subst (asm) FindFirstZeroFrom_loop.simps) (auto simp: Let_def split: if_splits)
    with "1.IH" True full_row [OF True] show ?thesis
      by (auto elim: allSet_append)
  next
    case False
    then have "r = Suc row" "off = ffzl (mapWord bm (Suc row))" "0 < off"
      using "1.prems" by (auto simp: FindFirstZeroFrom_loop.simps [of bm row] Let_def)
    with first_zero_in_row [of bm r off] show ?thesis by simp
  qed
qed

lemma masked_row_full:
  assumes "ffzl (mapWord bm r OR (push_bit c 1 - 1)) = 0" "c < 64"
  shows "allSet bm (r * 64 + c) (Suc r * 64)"
  unfolding allSet_def
proof (intro allI impI)
  fix i assume i: "r * 64 + c \<le> i \<and> i < Suc r * 64"
  then have "r * 64 \<le> i" "i < r * 64 + 64" "(64::nat) \<le> 64" by simp_all
  then obtain j where j: "i = r * 64 + j" "j < 64" by (rule in_row)
  with i have "c \<le> j" by simp
  with assms j show "BitMap_IsSetBit bm i"
    by (auto simp: ffzl_zero IsSetBit_row bit_or_iff bit_below_mask simp del: push_bit_of_1)
qed

lemma masked_row_first:
  assumes "ffzl (mapWord bm r OR (push_bit c 1 - 1)) = off" "0 < off" "c < 64"
  shows "off \<le> 64" "r * 64 + c \<le> r * 64 + off - 1" "\<not> BitMap_IsSetBit bm (r * 64 + off - 1)"
    "allSet bm (r * 64 + c) (r * 64 + off - 1)"
proof -
  obtain j where j: "off = Suc j" using assms(2) by (cases off) auto
  have *: "j < 64" "\<not> bit (mapWord bm r) j" "c \<le> j" "\<forall>k<j. bit (mapWord bm r) k \<or> k < c"
    using assms j by (auto simp: ffzl_Suc bit_or_iff bit_below_mask simp del: push_bit_of_1)
  then show "off \<le> 64" "r * 64 + c \<le> r * 64 + off - 1" "\<not> BitMap_IsSetBit bm (r * 64 + off - 1)"
    using j by (simp_all add: IsSetBit_row)
  show "allSet bm (r * 64 + c) (r * 64 + off - 1)"
    unfolding allSet_def
  proof (intro allI impI)
    fix i assume i: "r * 64 + c \<le> i \<and> i < r * 64 + off - 1"
    then have "r * 64 \<le> i" "i < r * 64 + j" "j \<le> 64" using j *(1) by simp_all
    then obtain k where "i = r * 64 + k" "k < j" "k < 64" by (rule in_row)
    with i * show "BitMap_IsSetBit bm i" by (auto simp: IsSetBit_row)
  qed
qed

section \<open>The abstract search and its refinement\<close>

definition firstFree :: "nat set \<Rightarrow> nat \<Rightarrow> nat \<Rightarrow> nat" where
  "firstFree used n b = (case find (\<lambda>i. i \<notin> used) [b..<n] of None \<Rightarrow> n | Some i \<Rightarrow> i)"

lemma firstFree_cases:
  "(firstFree used n b = n \<and> {b..<n} \<subseteq> used) \<or>
   (b \<le> firstFree used n b \<and> firstFree used n b < n \<and> firstFree used n b \<notin> used \<and>
    {b..<firstFree used n b} \<subseteq> used)"
proof (cases "find (\<lambda>i. i \<notin> used) [b..<n]")
  case None
  then show ?thesis by (simp add: firstFree_def) (auto simp: find_None_iff)
next
  case (Some i)
  then obtain k where "k < n - b" "b + k \<notin> used" "i = b + k" "\<forall>j<k. b + j \<in> used"
    by (auto simp: find_Some_iff)
  moreover have "{b..<b + k} \<subseteq> used"
    using \<open>\<forall>j<k. b + j \<in> used\<close>
    by (metis atLeastLessThan_iff le_Suc_ex nat_add_left_cancel_less subsetI)
  ultimately show ?thesis using Some by (auto simp: firstFree_def)
qed

lemma firstFree_unique:
  assumes "b \<le> r" "r < n" "r \<notin> used" "{b..<r} \<subseteq> used"
  shows "firstFree used n b = r"
proof -
  have "\<not> firstFree used n b < r" "\<not> r < firstFree used n b"
    using assms firstFree_cases [of used n b] by (auto simp: subset_eq)
  then show ?thesis by simp
qed

lemma firstFree_none: "{b..<n} \<subseteq> used \<Longrightarrow> firstFree used n b = n"
  using firstFree_cases [of used n b] by (meson atLeastLessThan_iff in_mono)

lemma firstFree_full: "firstFree used n b = n \<Longrightarrow> {b..<n} \<subseteq> used"
  using firstFree_cases [of used n b] by auto

lemma allSet_bits: "b \<le> numBits bm \<Longrightarrow> allSet bm a b \<longleftrightarrow> {a..<b} \<subseteq> bits bm"
  by (auto simp: allSet_def bits_def subset_eq)

lemma wf_entries: "bitmap_wf bm \<Longrightarrow> numBits bm \<le> numEntry bm * 64"
  by (simp add: bitmap_wf_def)

text \<open>A clear position found by a scan is the answer, or lies past the last valid bit.\<close>

lemma offsetOrNumBits_firstFree:
  assumes wf: "bitmap_wf bm" and r: "r \<le> numEntry bm" and off: "0 < off" "off \<le> 64"
    and "b \<le> r * 64 + off - 1" and clear: "\<not> BitMap_IsSetBit bm (r * 64 + off - 1)"
    and below: "allSet bm b (r * 64 + off - 1)"
  shows "offsetOrNumBits bm r off = firstFree (bits bm) (numBits bm) b"
    and "u64 (off + r * 64 - 1) = r * 64 + off - 1"
proof -
  have "r * 64 + off \<le> (numBits bm + 63) div 64 * 64 + 64"
    using r off wf by (simp add: bitmap_wf_def)
  also have "\<dots> \<le> 2 ^ 63 + 128" using wf by (auto simp: bitmap_wf_def)
  finally show u: "u64 (off + r * 64 - 1) = r * 64 + off - 1"
    by (simp add: add.commute)
  show "offsetOrNumBits bm r off = firstFree (bits bm) (numBits bm) b"
  proof (cases "r * 64 + off - 1 < numBits bm")
    case True
    then have "firstFree (bits bm) (numBits bm) b = r * 64 + off - 1"
      using assms by (intro firstFree_unique) (auto simp: allSet_bits, simp add: bits_def)
    with True u show ?thesis by (simp add: offsetOrNumBits_def Let_def BitMap_IsValidBit_def)
  next
    case False
    then have "allSet bm b (numBits bm)" using below by (auto simp: allSet_def)
    then have "firstFree (bits bm) (numBits bm) b = numBits bm"
      by (intro firstFree_none) (simp add: allSet_bits)
    with False u show ?thesis by (simp add: offsetOrNumBits_def Let_def BitMap_IsValidBit_def)
  qed
qed

lemma FindFirstZeroFrom_loop_row: "FindFirstZeroFrom_loop bm row = Some (r, off) \<Longrightarrow>
    row < numEntry bm \<Longrightarrow> r \<le> numEntry bm"
proof (induction bm row rule: FindFirstZeroFrom_loop.induct)
  case (1 bm row)
  then show ?case
    by (subst (asm) (2) FindFirstZeroFrom_loop.simps) (auto simp: Let_def split: if_splits)
qed

lemma FindFirstZeroFrom_scan_Some:
  assumes "FindFirstZeroFrom_scan bm b = Some (r, off)" "bitmap_wf bm" "b < numBits bm"
  shows "r \<le> numEntry bm" "0 < off" "off \<le> 64" "b \<le> r * 64 + off - 1"
    "\<not> BitMap_IsSetBit bm (r * 64 + off - 1)" "allSet bm b (r * 64 + off - 1)"
proof -
  let ?row = "b div 64" and ?c = "b mod 64"
  have row: "?row < numEntry bm" using wf_row [OF assms(2,3)] assms(2) by (simp add: bitmap_wf_def)
  have b: "b = ?row * 64 + ?c" by simp
  have "r \<le> numEntry bm \<and> 0 < off \<and> off \<le> 64 \<and> b \<le> r * 64 + off - 1 \<and>
      \<not> BitMap_IsSetBit bm (r * 64 + off - 1) \<and> allSet bm b (r * 64 + off - 1)"
  proof (cases "ffzl (mapWord bm ?row OR (push_bit ?c 1 - 1)) = 0")
    case True
    then have loop: "FindFirstZeroFrom_loop bm ?row = Some (r, off)"
      using assms(1) by (simp add: FindFirstZeroFrom_scan_def Let_def)
    note l = FindFirstZeroFrom_loop_Some [OF loop]
    have "allSet bm b (Suc ?row * 64)" using masked_row_full [OF True] by simp
    then have "allSet bm b (r * 64 + off - 1)" using l allSet_append by blast
    moreover have "Suc ?row * 64 \<le> r * 64" using l by (intro mult_le_mono) auto
    then have "b \<le> r * 64 + off - 1" using b l by linarith
    ultimately show ?thesis using l FindFirstZeroFrom_loop_row [OF loop row] by blast
  next
    case False
    then have "r = ?row" "off = ffzl (mapWord bm ?row OR (push_bit ?c 1 - 1))" "0 < off"
      using assms(1) by (auto simp: FindFirstZeroFrom_scan_def Let_def)
    with masked_row_first [of bm ?row ?c off] row show ?thesis by simp
  qed
  then show "r \<le> numEntry bm" "0 < off" "off \<le> 64" "b \<le> r * 64 + off - 1"
    "\<not> BitMap_IsSetBit bm (r * 64 + off - 1)" "allSet bm b (r * 64 + off - 1)" by simp_all
qed

lemma FindFirstZeroFrom_scan_None:
  assumes "FindFirstZeroFrom_scan bm b = None" "bitmap_wf bm"
  shows "allSet bm b (numBits bm)"
proof -
  let ?row = "b div 64" and ?c = "b mod 64"
  have z: "ffzl (mapWord bm ?row OR (push_bit ?c 1 - 1)) = 0" and
    loop: "FindFirstZeroFrom_loop bm ?row = None"
    using assms(1) by (auto simp: FindFirstZeroFrom_scan_def Let_def split: if_splits)
  have "allSet bm b (Suc ?row * 64)" using masked_row_full [OF z] by simp
  then have "allSet bm b (numEntry bm * 64)"
    using FindFirstZeroFrom_loop_None [OF loop] by (rule allSet_append)
  then show ?thesis using wf_entries [OF assms(2)] by (auto simp: allSet_def)
qed

lemma FindFirstZeroFrom_firstFree:
  assumes "bitmap_wf bm"
  shows "BitMap_FindFirstZeroFrom bm b = firstFree (bits bm) (numBits bm) b"
proof (cases "b < numBits bm")
  case valid: True
  show ?thesis
  proof (cases "FindFirstZeroFrom_scan bm b")
    case None
    then show ?thesis
      using valid FindFirstZeroFrom_scan_None [OF None assms]
      by (simp add: BitMap_FindFirstZeroFrom_def BitMap_IsValidBit_def firstFree_none allSet_bits)
  next
    case (Some p)
    obtain r off where p: "p = (r, off)" by (cases p)
    show ?thesis
      using valid Some p offsetOrNumBits_firstFree(1) [OF assms]
        FindFirstZeroFrom_scan_Some [OF Some [unfolded p] assms valid]
      by (simp add: BitMap_FindFirstZeroFrom_def BitMap_IsValidBit_def)
  qed
next
  case False
  then show ?thesis
    by (simp add: BitMap_FindFirstZeroFrom_def BitMap_IsValidBit_def firstFree_def)
qed

lemma FindFirstZero_loop_None:
  "FindFirstZero_loop bm row = None \<Longrightarrow> allSet bm (row * 64) (numEntry bm * 64)"
proof (induction bm row rule: FindFirstZero_loop.induct)
  case (1 bm row)
  have off: "ffzl (mapWord bm row) = 0"
    using "1.prems" by (subst (asm) FindFirstZero_loop.simps) (auto simp: Let_def split: if_splits)
  have "allSet bm (Suc row * 64) (numEntry bm * 64)"
  proof (cases "Suc row \<ge> numEntry bm")
    case False
    then have "FindFirstZero_loop bm (Suc row) = None"
      using "1.prems" off by (simp add: FindFirstZero_loop.simps [of bm row])
    with "1.IH" False off show ?thesis by simp
  qed simp
  with full_row [OF off] show ?case by (rule allSet_append)
qed

lemma FindFirstZero_loop_Some:
  "FindFirstZero_loop bm row = Some (r, off) \<Longrightarrow> row < numEntry bm \<Longrightarrow>
     row \<le> r \<and> r < numEntry bm \<and> 0 < off \<and> off \<le> 64 \<and>
     \<not> BitMap_IsSetBit bm (r * 64 + off - 1) \<and> allSet bm (row * 64) (r * 64 + off - 1)"
proof (induction bm row rule: FindFirstZero_loop.induct)
  case (1 bm row)
  show ?case
  proof (cases "ffzl (mapWord bm row) = 0")
    case True
    then have "\<not> Suc row \<ge> numEntry bm" "FindFirstZero_loop bm (Suc row) = Some (r, off)"
      using "1.prems" by (auto simp: FindFirstZero_loop.simps [of bm row] split: if_splits)
    with "1.IH" True full_row [OF True] show ?thesis
      by (auto elim: allSet_append)
  next
    case False
    then have "r = row" "off = ffzl (mapWord bm row)" "0 < off"
      using "1.prems" by (auto simp: FindFirstZero_loop.simps [of bm row] Let_def)
    with first_zero_in_row [of bm r off] "1.prems" show ?thesis by simp
  qed
qed

lemma FindFirstZero_firstFree:
  assumes wf: "bitmap_wf bm"
  shows "BitMap_FindFirstZero bm = firstFree (bits bm) (numBits bm) 0"
proof (cases "FindFirstZero_loop bm 0")
  case None
  have "allSet bm 0 (numBits bm)"
    using FindFirstZero_loop_None [OF None] wf_entries [OF wf] by (auto simp: allSet_def)
  then show ?thesis
    using None by (simp add: BitMap_FindFirstZero_def firstFree_none allSet_bits)
next
  case (Some p)
  obtain r off where p: "p = (r, off)" by (cases p)
  have "0 < numEntry bm" using wf by (auto simp: bitmap_wf_def)
  then show ?thesis
    using Some p offsetOrNumBits_firstFree(1) [OF wf, of r off 0]
      FindFirstZero_loop_Some [OF Some [unfolded p]]
    by (simp add: BitMap_FindFirstZero_def)
qed

lemma FindFirstZeroIn_firstFree:
  assumes wf: "bitmap_wf bm" and "b < numBits bm" "e < numBits bm"
  shows "BitMap_FindFirstZeroIn bm b e =
    (let r = firstFree (bits bm) (numBits bm) b in if r \<le> e then r else numBits bm)"
proof (cases "FindFirstZeroFrom_scan bm b")
  case None
  then show ?thesis
    using assms FindFirstZeroFrom_scan_None [OF None wf]
    by (simp add: BitMap_FindFirstZeroIn_def BitMap_IsValidBit_def firstFree_none allSet_bits)
next
  case (Some p)
  obtain r off where p: "p = (r, off)" by (cases p)
  note q = FindFirstZeroFrom_scan_Some [OF Some [unfolded p] wf assms(2)]
  note f = offsetOrNumBits_firstFree [OF wf q(1-4) q(5-6)]
  show ?thesis
    using assms Some p f
    by (auto simp: BitMap_FindFirstZeroIn_def BitMap_IsValidBit_def offsetOrNumBits_def Let_def
        split: if_splits)
qed

lemma FindNextZero_cases:
  assumes "bitmap_inv bm"
  shows "(BitMap_FindNextZero bm = numBits bm \<and> bits bm = {..<numBits bm}) \<or>
         (BitMap_FindNextZero bm < numBits bm \<and> BitMap_FindNextZero bm \<notin> bits bm)"
proof -
  have wf: "bitmap_wf bm" and cnt: "unat (numBitsSet bm) = card (bits bm)"
    using assms by (simp_all add: bitmap_inv_def)
  have full: "numBits bm \<le> card (bits bm) \<longleftrightarrow> bits bm = {..<numBits bm}"
    using card_full [OF bits_subset] card_bits_le [of bm] by (metis le_antisym order_refl)
  let ?p = "u64 (lastSetPosition bm + 1) mod numBits bm"
  let ?f = "firstFree (bits bm) (numBits bm) ?p" and ?g = "firstFree (bits bm) (numBits bm) 0"
  have eq: "BitMap_FindNextZero bm =
      (if ?f = numBits bm then if numBits bm \<le> card (bits bm) then numBits bm else ?g else ?f)"
    by (simp add: BitMap_FindNextZero_def FindFirstZeroFrom_firstFree [OF wf] cnt Let_def)
  show ?thesis
  proof (cases "?f = numBits bm")
    case True
    show ?thesis
    proof (cases "bits bm = {..<numBits bm}")
      case False
      then have "?g \<noteq> numBits bm"
        using bits_subset [of bm] firstFree_full [of "bits bm" "numBits bm" 0]
        by (metis lessThan_atLeast0 subset_antisym)
      with firstFree_cases [of "bits bm" "numBits bm" 0] show ?thesis
        using True False full eq by simp
    qed (use True full eq in simp)
  next
    case False
    with firstFree_cases [of "bits bm" "numBits bm" ?p] eq show ?thesis by simp
  qed
qed

section \<open>Clearing a range\<close>

lemma bit_GetMask:
  assumes "0 < n" "s + n \<le> 64" "j < 64"
  shows "bit (BitMap_GetMask 0 n s) j \<longleftrightarrow> s \<le> j \<and> j < s + n"
proof (cases "n < 64")
  case True
  have "bit (2 ^ n - 1 :: uint64) k \<longleftrightarrow> k < n" for k
    unfolding mask_eq_exp_minus_1 [symmetric] using True by (auto simp: bit_mask_iff)
  then have "bit (BitMap_GetMask 0 n s) j \<longleftrightarrow> s \<le> j \<and> j - s < n"
    unfolding BitMap_GetMask_def using True assms(3) by (simp add: bit_push_bit_iff)
  also have "\<dots> \<longleftrightarrow> s \<le> j \<and> j < s + n" by linarith
  finally show ?thesis .
next
  case False
  with assms have "n = 64" "s = 0" by simp_all
  with assms show ?thesis by (simp add: BitMap_GetMask_def)
qed

lemma row_cols:
  assumes "b \<le> (e::nat)" "b div 64 \<le> row" "row \<le> e div 64"
  shows "startCol b row \<le> endCol e row" "endCol e row < 64"
    "i div 64 = row \<and> startCol b row \<le> i mod 64 \<and> i mod 64 \<le> endCol e row \<longleftrightarrow>
       b \<le> i \<and> i \<le> e \<and> i div 64 = row"
    "endCol e row + 1 - startCol b row = min (e + 1) (Suc row * 64) - max b (row * 64)"
proof -
  define br bc er ec ir ic where
    d: "br = b div 64" "bc = b mod 64" "er = e div 64" "ec = e mod 64" "ir = i div 64" "ic = i mod 64"
  have v: "b = br * 64 + bc" "e = er * 64 + ec" "i = ir * 64 + ic" "bc < 64" "ec < 64" "ic < 64"
    by (simp_all add: d)
  have r: "br \<le> row" "row \<le> er" "br * 64 + bc \<le> er * 64 + ec"
    using assms v(1,2) unfolding d(1,3) by linarith+
  have cols: "startCol b row = (if row = br then bc else 0)" "endCol e row = (if row = er then ec else 63)"
    by (simp_all add: startCol_def endCol_def d)
  show "startCol b row \<le> endCol e row" "endCol e row < 64"
    using r v(4,5) unfolding cols by (simp_all split: if_splits)
  have lo: "ir = row \<Longrightarrow> startCol b row \<le> ic \<longleftrightarrow> b \<le> i"
    unfolding cols using r(1) v(1,3,4,6) by (cases "row = br") simp_all
  have hi: "ir = row \<Longrightarrow> ic \<le> endCol e row \<longleftrightarrow> i \<le> e"
    unfolding cols using r(2) v(2,3,5,6) by (cases "row = er") simp_all
  show "i div 64 = row \<and> startCol b row \<le> i mod 64 \<and> i mod 64 \<le> endCol e row \<longleftrightarrow>
       b \<le> i \<and> i \<le> e \<and> i div 64 = row"
    using lo hi unfolding d(5,6) by blast
  have "max b (row * 64) = row * 64 + startCol b row"
    unfolding cols using r(1) v(1,4) by (cases "row = br") simp_all
  moreover have "min (e + 1) (Suc row * 64) = row * 64 + endCol e row + 1"
    unfolding cols using r(2) v(2,5) by (cases "row = er") simp_all
  ultimately show "endCol e row + 1 - startCol b row = min (e + 1) (Suc row * 64) - max b (row * 64)"
    by simp
qed


lemma of_nat_diff_Suc_uint64:
  "s \<le> t \<Longrightarrow> of_nat t - of_nat s + 1 = (of_nat (t + 1 - s) :: uint64)"
  by (simp add: Suc_diff_le)

lemma unat_of_nat_small: "n \<le> 64 \<Longrightarrow> unat (of_nat n :: uint64) = n"
  by (simp add: unat_of_nat)

lemma ClearBits_row_eq:
  assumes "b \<le> e" "b div 64 \<le> row" "row \<le> e div 64"
  defines "n \<equiv> endCol e row + 1 - startCol b row"
  shows "ClearBits_row 0 b e row bm =
    bm\<lparr>bmap := (bmap bm)[row := bmap bm ! row AND NOT (BitMap_GetMask 0 n (startCol b row))],
       numBitsSet := numBitsSet bm - of_nat n\<rparr>"
  using row_cols(1,2) [OF assms(1-3)]
proof -
  have "of_nat (endCol e row) - of_nat (startCol b row) + 1 = (of_nat n :: uint64)"
    unfolding n_def by (rule of_nat_diff_Suc_uint64) fact
  moreover have "unat (of_nat n :: uint64) = n"
    using \<open>endCol e row < 64\<close> by (intro unat_of_nat_small) (simp add: n_def)
  ultimately show ?thesis by (simp add: ClearBits_row_def)
qed

lemma ClearBits_row_IsSetBit:
  assumes "b \<le> e" "b div 64 \<le> row" "row \<le> e div 64" "row < length (bmap bm)"
  shows "BitMap_IsSetBit (ClearBits_row 0 b e row bm) i \<longleftrightarrow>
         BitMap_IsSetBit bm i \<and> \<not> (b \<le> i \<and> i \<le> e \<and> i div 64 = row)"
proof -
  note c = row_cols [OF assms(1-3)]
  let ?s = "startCol b row" and ?t = "endCol e row"
  have "bit (BitMap_GetMask 0 (?t + 1 - ?s) ?s) (i mod 64) \<longleftrightarrow> ?s \<le> i mod 64 \<and> i mod 64 \<le> ?t"
    using c(1,2) bit_GetMask [of "?t + 1 - ?s" ?s "i mod 64"] by auto
  then show ?thesis
    using assms(4) c(3) [of i]
    unfolding ClearBits_row_eq [OF assms(1-3)] IsSetBit_iff mapWord_update(2) [OF assms(4)]
    by (auto simp: mapWord_def bit_and_iff bit_not_iff)
qed

lemma ClearBits_row_frame [pos_frame, simp]:
  "numBits (ClearBits_row ovf b e row bm) = numBits bm"
  "numEntry (ClearBits_row ovf b e row bm) = numEntry bm"
  "length (bmap (ClearBits_row ovf b e row bm)) = length (bmap bm)"
  "lastSetPosition (ClearBits_row ovf b e row bm) = lastSetPosition bm"
  by (simp_all add: ClearBits_row_def Let_def)

lemma ClearBits_fold:
  assumes "b \<le> e" "e < numBits bm" "bitmap_wf bm" "b div 64 \<le> k" "k \<le> Suc (e div 64)"
  defines "bm' \<equiv> fold (ClearBits_row 0 b e) [b div 64..<k] bm"
  shows "numBits bm' = numBits bm \<and> numEntry bm' = numEntry bm \<and>
    length (bmap bm') = length (bmap bm) \<and> lastSetPosition bm' = lastSetPosition bm \<and>
    (\<forall>i. BitMap_IsSetBit bm' i \<longleftrightarrow> BitMap_IsSetBit bm i \<and> \<not> (b \<le> i \<and> i \<le> e \<and> i div 64 < k)) \<and>
    (b div 64 < k \<longrightarrow> numBitsSet bm' = numBitsSet bm - of_nat (min (e + 1) (k * 64) - b))"
  using assms(4,5) unfolding bm'_def
proof (induction k rule: dec_induct)
  case base
  then show ?case by (auto dest: div_le_mono [of b _ 64])
next
  case (step k)
  let ?m = "fold (ClearBits_row 0 b e) [b div 64..<k] bm"
  have k: "k \<le> e div 64" using step by simp
  have IH: "numBits ?m = numBits bm \<and> numEntry ?m = numEntry bm \<and>
    length (bmap ?m) = length (bmap bm) \<and> lastSetPosition ?m = lastSetPosition bm \<and>
    (\<forall>i. BitMap_IsSetBit ?m i \<longleftrightarrow> BitMap_IsSetBit bm i \<and> \<not> (b \<le> i \<and> i \<le> e \<and> i div 64 < k)) \<and>
    (b div 64 < k \<longrightarrow> numBitsSet ?m = numBitsSet bm - of_nat (min (e + 1) (k * 64) - b))"
    using step by simp
  have len: "k < length (bmap ?m)"
    using IH k wf_row [OF assms(3,2)] by simp
  have f: "fold (ClearBits_row 0 b e) [b div 64..<Suc k] bm = ClearBits_row 0 b e k ?m"
    using step(1) by simp
  have n: "endCol e k + 1 - startCol b k = min (e + 1) (Suc k * 64) - max b (k * 64)"
    by (rule row_cols(4) [OF assms(1) step(1) k])
  have cnt: "numBitsSet (ClearBits_row 0 b e k ?m) =
      numBitsSet bm - of_nat (min (e + 1) (Suc k * 64) - b)"
  proof (cases "b div 64 < k")
    case True
    then have bk: "b < k * 64" by simp
    have "k * 64 \<le> e" using k by simp
    then have "(min (e + 1) (k * 64) - b) + (endCol e k + 1 - startCol b k) = min (e + 1) (Suc k * 64) - b"
      unfolding n using bk by simp
    then have "of_nat (min (e + 1) (k * 64) - b) + of_nat (endCol e k + 1 - startCol b k) =
        (of_nat (min (e + 1) (Suc k * 64) - b) :: uint64)"
      by (metis of_nat_add)
    moreover have "numBitsSet ?m = numBitsSet bm - of_nat (min (e + 1) (k * 64) - b)"
      using IH True by blast
    moreover have "numBitsSet (ClearBits_row 0 b e k ?m) =
        numBitsSet ?m - of_nat (endCol e k + 1 - startCol b k)"
      by (simp add: ClearBits_row_eq [OF assms(1) step(1) k])
    ultimately show ?thesis by (simp only: diff_diff_eq)
  next
    case False
    then have "k = b div 64" using step(1) by simp
    then have m: "?m = bm" "max b (k * 64) = b" by simp_all
    show ?thesis
      unfolding ClearBits_row_eq [OF assms(1) step(1) k] n unfolding m by simp
  qed
  have "BitMap_IsSetBit (ClearBits_row 0 b e k ?m) i \<longleftrightarrow>
      BitMap_IsSetBit bm i \<and> \<not> (b \<le> i \<and> i \<le> e \<and> i div 64 < Suc k)" for i
    using IH ClearBits_row_IsSetBit [OF assms(1) step(1) k len, of i] by (auto simp: less_Suc_eq)
  then show ?case
    unfolding f using IH cnt by (simp only: ClearBits_row_frame) blast
qed

lemma ClearBits_effect:
  assumes "bitmap_wf bm" "b \<le> e" "e < numBits bm"
  shows "fst (BitMap_ClearBits 0 b e bm)"
    and "bits (snd (BitMap_ClearBits 0 b e bm)) = bits bm - {b..e}"
    and "numBitsSet (snd (BitMap_ClearBits 0 b e bm)) = numBitsSet bm - of_nat (Suc e - b)"
    and "bitmap_wf (snd (BitMap_ClearBits 0 b e bm))"
proof -
  have be: "b div 64 \<le> Suc (e div 64)" using div_le_mono [OF assms(2), of 64] by simp
  let ?m = "fold (ClearBits_row 0 b e) [b div 64..<Suc (e div 64)] bm"
  have eq: "BitMap_ClearBits 0 b e bm = (True, ?m)"
    using assms by (simp add: BitMap_ClearBits_def BitMap_IsValidBit_def del: upt_Suc)
  then show "fst (BitMap_ClearBits 0 b e bm)" by simp
  note F = ClearBits_fold [OF assms(2,3,1) be order_refl]
  then have frame: "numBits ?m = numBits bm" "numEntry ?m = numEntry bm"
    "length (bmap ?m) = length (bmap bm)" "lastSetPosition ?m = lastSetPosition bm"
    and isSet: "\<And>i. BitMap_IsSetBit ?m i \<longleftrightarrow>
        BitMap_IsSetBit bm i \<and> \<not> (b \<le> i \<and> i \<le> e \<and> i div 64 < Suc (e div 64))"
    and cnt: "b div 64 < Suc (e div 64) \<longrightarrow>
        numBitsSet ?m = numBitsSet bm - of_nat (min (e + 1) (Suc (e div 64) * 64) - b)"
    by blast+
  have "b div 64 < Suc (e div 64)" using div_le_mono [OF assms(2), of 64] by simp
  moreover have "min (e + 1) (Suc (e div 64) * 64) = Suc e" by simp
  ultimately have "numBitsSet ?m = numBitsSet bm - of_nat (Suc e - b)"
    using cnt by (simp only: mp)
  then show "numBitsSet (snd (BitMap_ClearBits 0 b e bm)) = numBitsSet bm - of_nat (Suc e - b)"
    unfolding eq snd_conv .
  have "i \<le> e \<Longrightarrow> i div 64 < Suc (e div 64)" for i
    using div_le_mono [of i e 64] by simp
  then have range: "BitMap_IsSetBit ?m i \<longleftrightarrow> BitMap_IsSetBit bm i \<and> \<not> (b \<le> i \<and> i \<le> e)" for i
    unfolding isSet by blast
  show "bits (snd (BitMap_ClearBits 0 b e bm)) = bits bm - {b..e}"
    unfolding eq snd_conv bits_def frame range by auto
  show "bitmap_wf (snd (BitMap_ClearBits 0 b e bm))"
    using assms(1) unfolding eq snd_conv bitmap_wf_def frame .
qed

section \<open>Scanning for a set bit\<close>

definition allClear :: "BitMap \<Rightarrow> nat \<Rightarrow> nat \<Rightarrow> bool" where
  "allClear bm a b \<longleftrightarrow> (\<forall>i. a \<le> i \<and> i < b \<longrightarrow> \<not> BitMap_IsSetBit bm i)"

lemma allClear_append: "allClear bm a b \<Longrightarrow> allClear bm b c \<Longrightarrow> allClear bm a c"
  unfolding allClear_def by (meson leI)

lemma allClear_rowI:
  assumes "\<And>j. c \<le> j \<Longrightarrow> j < k \<Longrightarrow> \<not> bit (mapWord bm r) j" "k \<le> 64"
  shows "allClear bm (r * 64 + c) (r * 64 + k)"
  unfolding allClear_def
proof (intro allI impI)
  fix i assume i: "r * 64 + c \<le> i \<and> i < r * 64 + k"
  then have "r * 64 \<le> i" "i < r * 64 + k" by simp_all
  then obtain j where "i = r * 64 + j" "j < k" "j < 64" using assms(2) by (rule in_row)
  with i assms(1) [of j] show "\<not> BitMap_IsSetBit bm i" by (simp add: IsSetBit_row)
qed

lemma clear_row: "ffsl (mapWord bm r) = 0 \<Longrightarrow> allClear bm (r * 64) (Suc r * 64)"
  using allClear_rowI [of 0 64 bm r] by (simp add: ffsl_zero add.commute)

lemma first_set_in_row:
  assumes "ffsl (mapWord bm r) = off" "0 < off"
  shows "off \<le> 64" "BitMap_IsSetBit bm (r * 64 + off - 1)" "allClear bm (r * 64) (r * 64 + off - 1)"
proof -
  obtain j where j: "off = Suc j" using assms(2) by (cases off) auto
  then have "j < 64" "bit (mapWord bm r) j" "\<forall>k<j. \<not> bit (mapWord bm r) k"
    using assms(1) by (simp_all add: ffsl_Suc)
  then show "off \<le> 64" "BitMap_IsSetBit bm (r * 64 + off - 1)"
    "allClear bm (r * 64) (r * 64 + off - 1)"
    using j allClear_rowI [of 0 j bm r] by (simp_all add: IsSetBit_row)
qed

lemma bit_from_mask: "c < 64 \<Longrightarrow> bit (w AND NOT (push_bit c 1 - 1) :: uint64) j \<longleftrightarrow> bit w j \<and> c \<le> j"
  by (auto simp: bit_and_iff bit_not_iff bit_below_mask simp del: push_bit_of_1 dest: bit_uint64_bound)

lemma masked_row_clear:
  assumes "ffsl (mapWord bm r AND NOT (push_bit c 1 - 1)) = 0" "c < 64"
  shows "allClear bm (r * 64 + c) (Suc r * 64)"
proof -
  have "\<forall>j<64. bit (mapWord bm r) j \<longrightarrow> \<not> c \<le> j"
    using assms by (simp add: ffsl_zero bit_from_mask del: push_bit_of_1)
  then show ?thesis using allClear_rowI [of c 64 bm r] by (auto simp: add.commute)
qed

lemma masked_row_first_set:
  assumes "ffsl (mapWord bm r AND NOT (push_bit c 1 - 1)) = off" "0 < off" "c < 64"
  shows "off \<le> 64" "r * 64 + c \<le> r * 64 + off - 1" "BitMap_IsSetBit bm (r * 64 + off - 1)"
    "allClear bm (r * 64 + c) (r * 64 + off - 1)"
proof -
  obtain j where j: "off = Suc j" using assms(2) by (cases off) auto
  then have *: "j < 64" "bit (mapWord bm r) j" "c \<le> j" "\<forall>k<j. \<not> (bit (mapWord bm r) k \<and> c \<le> k)"
    using assms by (simp_all add: ffsl_Suc bit_from_mask del: push_bit_of_1)
  then show "off \<le> 64" "r * 64 + c \<le> r * 64 + off - 1" "BitMap_IsSetBit bm (r * 64 + off - 1)"
    using j by (simp_all add: IsSetBit_row)
  show "allClear bm (r * 64 + c) (r * 64 + off - 1)"
    using j * allClear_rowI [of c j bm r] by auto
qed

text \<open>The loop returns: it stops at a set bit, or at the end of the map with the last column.\<close>

lemma FindFirstSet_loop_returns:
  assumes "row < numEntry bm" "numEntry bm < 2 ^ 32"
  shows "\<exists>r off. FindFirstSet_loop bm row = Some (r, off) \<and> row < r \<and> 0 < off \<and> off \<le> 64 \<and>
    ((r = numEntry bm \<and> off = 64 \<and> allClear bm (Suc row * 64) (r * 64)) \<or>
     (r < numEntry bm \<and> BitMap_IsSetBit bm (r * 64 + off - 1) \<and>
      allClear bm (Suc row * 64) (r * 64 + off - 1)))"
  using assms
proof (induction "numEntry bm - row" arbitrary: row rule: less_induct)
  case less
  have u: "u32 (Suc row) = Suc row" using less.prems by simp
  consider (last) "Suc row = numEntry bm"
    | (found) "Suc row \<noteq> numEntry bm" "ffsl (mapWord bm (Suc row)) \<noteq> 0"
    | (clear) "Suc row \<noteq> numEntry bm" "ffsl (mapWord bm (Suc row)) = 0" by blast
  then show ?case
  proof cases
    case last
    with u have "FindFirstSet_loop bm row = Some (Suc row, 64)"
      by (subst FindFirstSet_loop.simps) (simp add: Let_def)
    with last show ?thesis by (auto simp: allClear_def)
  next
    case found
    then have "FindFirstSet_loop bm row = Some (Suc row, ffsl (mapWord bm (Suc row)))"
      by (subst FindFirstSet_loop.simps) (simp add: u Let_def)
    with found first_set_in_row [OF refl, of bm "Suc row"] less.prems show ?thesis by simp
  next
    case clear
    then have eq: "FindFirstSet_loop bm row = FindFirstSet_loop bm (Suc row)"
      by (subst FindFirstSet_loop.simps) (simp add: u Let_def)
    have nxt: "Suc row < numEntry bm" "numEntry bm - Suc row < numEntry bm - row"
      using clear less.prems by simp_all
    obtain r off where r: "FindFirstSet_loop bm (Suc row) = Some (r, off)" "Suc row < r"
      "0 < off" "off \<le> 64"
      "(r = numEntry bm \<and> off = 64 \<and> allClear bm (Suc (Suc row) * 64) (r * 64)) \<or>
       (r < numEntry bm \<and> BitMap_IsSetBit bm (r * 64 + off - 1) \<and>
        allClear bm (Suc (Suc row) * 64) (r * 64 + off - 1))"
      using less.hyps [OF nxt(2,1) less.prems(2)] by blast
    then show ?thesis
      using eq allClear_append [OF clear_row [OF clear(2)]] by (intro exI [of _ r] exI [of _ off]) auto
  qed
qed

lemma allClear_bits: "allClear bm a (numBits bm) \<longleftrightarrow> {a..<numBits bm} \<subseteq> - bits bm"
  by (auto simp: allClear_def bits_def subset_eq)

lemma allClear_below: "allClear bm a b \<Longrightarrow> {a..<b} \<subseteq> - bits bm"
  by (auto simp: allClear_def bits_def subset_eq)

lemma FindFirstSet_firstFree:
  assumes wf: "bitmap_wf bm" and small: "numBits bm < 2 ^ 31"
  shows "BitMap_FindFirstSet bm b = Some (firstFree (- bits bm) (numBits bm) b)"
proof (cases "b < numBits bm")
  case True
  let ?row = "b div 64" and ?c = "b mod 64"
  have entries: "numEntry bm < 2 ^ 26" using wf small by (auto simp: bitmap_wf_def)
  have row: "?row < numEntry bm" using wf_row [OF wf True] wf by (simp add: bitmap_wf_def)
  have u: "u32 ?row = ?row" "u32 ?c = ?c" using row entries by simp_all
  let ?v = "ffsl (mapWord bm ?row AND NOT (push_bit ?c 1 - 1))"
  have "\<exists>r off. (if ?v = 0 then FindFirstSet_loop bm ?row else Some (?row, ?v)) = Some (r, off) \<and>
      0 < off \<and> off \<le> 64 \<and> b \<le> r * 64 + off - 1 \<and>
      ((r = numEntry bm \<and> off = 64 \<and> allClear bm b (r * 64)) \<or>
       (r < numEntry bm \<and> BitMap_IsSetBit bm (r * 64 + off - 1) \<and> allClear bm b (r * 64 + off - 1)))"
  proof (cases "?v = 0")
    case v0: True
    have first: "allClear bm b (Suc ?row * 64)" using masked_row_clear [OF v0] by simp
    obtain r off where r: "FindFirstSet_loop bm ?row = Some (r, off)" "?row < r" "0 < off" "off \<le> 64"
      "(r = numEntry bm \<and> off = 64 \<and> allClear bm (Suc ?row * 64) (r * 64)) \<or>
       (r < numEntry bm \<and> BitMap_IsSetBit bm (r * 64 + off - 1) \<and>
        allClear bm (Suc ?row * 64) (r * 64 + off - 1))"
      using FindFirstSet_loop_returns [OF row] entries by auto
    have "b < Suc ?row * 64" using div_mult_mod_eq [of b 64] mod_less_divisor [of 64 b] by simp
    moreover have "Suc ?row * 64 \<le> r * 64" using r(2) by simp
    ultimately have "b \<le> r * 64 + off - 1" using r(3) by linarith
    then show ?thesis using v0 r allClear_append [OF first] by auto
  next
    case False
    then show ?thesis using masked_row_first_set [of bm ?row ?c ?v] row by simp
  qed
  then obtain r off where r: "(if ?v = 0 then FindFirstSet_loop bm ?row else Some (?row, ?v)) = Some (r, off)"
      "0 < off" "off \<le> 64" "b \<le> r * 64 + off - 1" "r \<le> numEntry bm"
      "(r = numEntry bm \<and> off = 64 \<and> allClear bm b (r * 64)) \<or>
       (r < numEntry bm \<and> BitMap_IsSetBit bm (r * 64 + off - 1) \<and> allClear bm b (r * 64 + off - 1))"
    by auto
  have off: "u32 (off + r * 64 - 1) = r * 64 + off - 1"
    using r(2,3,5) entries by (subst u32_id) (simp_all add: add.commute)
  have res: "BitMap_FindFirstSet bm b =
      Some (if r * 64 + off - 1 < numBits bm then r * 64 + off - 1 else numBits bm)"
    using True off
    by (simp only: BitMap_FindFirstSet_def BitMap_IsValidBit_def Let_def u r(1) option.case prod.case
        if_False not_True_eq_False)
  show ?thesis
  proof (cases "r * 64 + off - 1 < numBits bm")
    case lt: True
    then have "r < numEntry bm" using wf_entries [OF wf] r(5,6) by auto
    then have "firstFree (- bits bm) (numBits bm) b = r * 64 + off - 1"
      using r(4,6) lt by (intro firstFree_unique) (auto simp: bits_def allClear_def)
    with lt res show ?thesis by simp
  next
    case False
    then have "allClear bm b (numBits bm)"
      using r(6) wf_entries [OF wf] by (auto simp: allClear_def)
    then have "firstFree (- bits bm) (numBits bm) b = numBits bm"
      by (intro firstFree_none) (simp add: allClear_bits)
    with False res show ?thesis by simp
  qed
next
  case False
  then show ?thesis by (simp add: BitMap_FindFirstSet_def BitMap_IsValidBit_def firstFree_def)
qed

section \<open>Construction, reset and union\<close>

lemma IsSetBit_pos: "i < numBits bm \<Longrightarrow> bitmap_wf bm \<Longrightarrow>
    BitMap_IsSetBit bm i \<longleftrightarrow> bit (bmap bm ! (i div 64)) (i mod 64)"
  using wf_row [of bm i] by (simp add: IsSetBit_iff mapWord_def)

lemma wf_length: "bitmap_wf bm \<Longrightarrow> length (bmap bm) = numEntry bm"
  by (simp add: bitmap_wf_def)

lemma fold_rows:
  "n \<le> length (bmap bm) \<Longrightarrow>
   fold (\<lambda>row b. b\<lparr>bmap := (bmap b)[row := f row (bmap b ! row)]\<rparr>) [0..<n] bm =
   bm\<lparr>bmap := map (\<lambda>row. f row (bmap bm ! row)) [0..<n] @ drop n (bmap bm)\<rparr>"
proof (induction n)
  case (Suc n)
  let ?f = "\<lambda>row b. b\<lparr>bmap := (bmap b)[row := f row (bmap b ! row)]\<rparr>"
  let ?l = "map (\<lambda>row. f row (bmap bm ! row)) [0..<n]"
  have d: "drop n (bmap bm) = bmap bm ! n # drop (Suc n) (bmap bm)"
    using Suc.prems by (simp add: Cons_nth_drop_Suc)
  have len: "length ?l = n" by simp
  have "fold ?f [0..<Suc n] bm = ?f n (bm\<lparr>bmap := ?l @ drop n (bmap bm)\<rparr>)"
    using Suc by simp
  also have "\<dots> = bm\<lparr>bmap := (?l @ [f n (bmap bm ! n)]) @ drop (Suc n) (bmap bm)\<rparr>"
    unfolding d by (simp add: nth_append list_update_append)
  finally show ?case by simp
qed simp

lemma ResetBitmap_eq: "bitmap_wf bm \<Longrightarrow>
    BitMap_ResetBitmap bm = bm\<lparr>bmap := replicate (numEntry bm) 0, numBitsSet := 0\<rparr>"
  using fold_rows [of "numEntry bm" bm "\<lambda>_ _. 0"]
  by (simp add: BitMap_ResetBitmap_def bitmap_wf_def map_replicate_const)

lemma ResetBitmap_inv [pos_inv]:
  assumes "bitmap_wf bm"
  shows "bitmap_inv (BitMap_ResetBitmap bm)" "bits (BitMap_ResetBitmap bm) = {}"
    "numBits (BitMap_ResetBitmap bm) = numBits bm"
proof -
  have wf: "bitmap_wf (BitMap_ResetBitmap bm)"
    using assms by (simp add: ResetBitmap_eq bitmap_wf_def)
  show b: "bits (BitMap_ResetBitmap bm) = {}"
    using wf_row [OF wf] by (auto simp: bits_def IsSetBit_iff mapWord_def ResetBitmap_eq [OF assms])
  show "bitmap_inv (BitMap_ResetBitmap bm)"
    using wf b by (simp add: bitmap_inv_def ResetBitmap_eq [OF assms])
  show "numBits (BitMap_ResetBitmap bm) = numBits bm" by (simp add: ResetBitmap_eq [OF assms])
qed

lemma BitMap_new_inv [pos_inv]:
  assumes "BitMap_new mem n = Inr bm" "n \<le> 2 ^ 63"
  shows "bitmap_inv bm" "bits bm = {}" "numBits bm = n"
proof -
  have up: "(if 0 < n mod 64 then n div 64 + 1 else n div 64) = (n + 63) div 64"
  proof -
    define q r where "q = n div 64" "r = n mod 64"
    then have "n = q * 64 + r" "r < 64" by simp_all
    then show ?thesis using div_less [of "r + 63" 64] by (cases "r = 0") (auto simp: div_nat_eqI)
  qed
  have bm: "bm = \<lparr>bmap = replicate ((n + 63) div 64) 0, numBits = n, numEntry = (n + 63) div 64,
      numBitsSet = 0, lastSetPosition = n - 1, pastEnd = mem\<rparr>" "0 < n"
    using assms(1) unfolding BitMap_new_def Let_def up
    by (simp_all add: assertion_def andThen_eq_Inr split: if_splits)
  then have wf: "bitmap_wf bm" using assms(2) by (simp add: bitmap_wf_def)
  then show "bits bm = {}"
    using wf_row [OF wf] bm by (auto simp: bits_def IsSetBit_iff mapWord_def)
  with wf bm show "bitmap_inv bm" "numBits bm = n" by (simp_all add: bitmap_inv_def)
qed

lemma Set_bits:
  assumes "bitmap_wf bm" "bitmap_wf im" "numBits im = numBits bm"
  shows "fst (BitMap_Set im bm)" "bits (snd (BitMap_Set im bm)) = bits bm \<union> bits im"
    "bitmap_wf (snd (BitMap_Set im bm))" "numBitsSet (snd (BitMap_Set im bm)) = numBitsSet bm"
proof -
  let ?r = "snd (BitMap_Set im bm)"
  have ent: "numEntry im = numEntry bm" using assms unfolding bitmap_wf_def by (elim conjE) simp
  have lens: "length (bmap bm) = numEntry bm" "length (bmap im) = numEntry im"
    using assms by (simp_all only: wf_length)
  have eq: "?r = bm\<lparr>bmap := map (\<lambda>row. bmap bm ! row OR mapWord im row) [0..<numEntry bm]\<rparr>"
    using fold_rows [of "numEntry bm" bm "\<lambda>row w. w OR mapWord im row"] lens ent
    unfolding BitMap_Set_def by simp
  show "fst (BitMap_Set im bm)" using ent by (simp add: BitMap_Set_def)
  show "bitmap_wf ?r" using assms(1) unfolding eq bitmap_wf_def by simp
  show "numBitsSet ?r = numBitsSet bm" unfolding eq by simp
  have "BitMap_IsSetBit ?r i \<longleftrightarrow> BitMap_IsSetBit bm i \<or> BitMap_IsSetBit im i" if "i < numBits bm" for i
  proof -
    have len: "i div 64 < numEntry bm" using wf_row [OF assms(1) that] lens(1) by simp
    then have "mapWord ?r (i div 64) = mapWord bm (i div 64) OR mapWord im (i div 64)"
      unfolding eq by (simp add: mapWord_def lens)
    then show ?thesis by (simp only: IsSetBit_iff bit_or_iff)
  qed
  moreover have "numBits ?r = numBits bm" unfolding eq by simp
  ultimately show "bits ?r = bits bm \<union> bits im" using assms(3) unfolding bits_def by auto
qed

section \<open>A pool of numbered slots\<close>

text \<open>
  What the owner of a stripe bitmap relies on: a slot taken is one nobody holds, a full pool says so
  by its capacity, and a released slot is free again.
\<close>

locale slot_pool =
  fixes pool_inv :: "'s \<Rightarrow> bool"
    and used :: "'s \<Rightarrow> nat set"
    and capacity :: "'s \<Rightarrow> nat"
    and take_slot :: "'s \<Rightarrow> nat \<times> 's"
    and release :: "nat \<Rightarrow> 's \<Rightarrow> 's"
  assumes used_bound: "pool_inv s \<Longrightarrow> used s \<subseteq> {..<capacity s}"
    and take_inv: "pool_inv s \<Longrightarrow> pool_inv (snd (take_slot s)) \<and> capacity (snd (take_slot s)) = capacity s"
    and take_free: "pool_inv s \<Longrightarrow> used s \<noteq> {..<capacity s} \<Longrightarrow>
          fst (take_slot s) < capacity s \<and> fst (take_slot s) \<notin> used s \<and>
          used (snd (take_slot s)) = insert (fst (take_slot s)) (used s)"
    and take_full: "pool_inv s \<Longrightarrow> used s = {..<capacity s} \<Longrightarrow> take_slot s = (capacity s, s)"
    and release_inv: "pool_inv s \<Longrightarrow> pool_inv (release i s) \<and> capacity (release i s) = capacity s \<and>
          used (release i s) = used s - {i}"
begin

lemma used_finite: "pool_inv s \<Longrightarrow> finite (used s)"
  by (rule finite_subset [OF used_bound finite_lessThan])

lemma not_full: "card (used s) < capacity s \<Longrightarrow> used s \<noteq> {..<capacity s}"
  by (metis card_lessThan less_irrefl)

lemma take_release: "pool_inv s \<Longrightarrow> used s \<noteq> {..<capacity s} \<Longrightarrow>
    used (release (fst (take_slot s)) (snd (take_slot s))) = used s"
  using take_free [of s] take_inv [of s] release_inv [of "snd (take_slot s)"] by simp

lemma takes_fresh:
  assumes "pool_inv s" "card (used s) + n \<le> capacity s" "takes take_slot n s = (xs, s')"
  shows "distinct xs \<and> length xs = n \<and> set xs \<inter> used s = {} \<and> set xs \<subseteq> {..<capacity s} \<and>
    used s' = used s \<union> set xs \<and> pool_inv s' \<and> capacity s' = capacity s"
  using assms
proof (induction n arbitrary: s xs s')
  case (Suc n)
  obtain i s1 where t: "take_slot s = (i, s1)" by fastforce
  obtain ys s2 where ys: "takes take_slot n s1 = (ys, s2)" by fastforce
  have i: "i < capacity s" "i \<notin> used s" "used s1 = insert i (used s)"
    and s1: "pool_inv s1" "capacity s1 = capacity s"
    using take_free [OF Suc.prems(1) not_full] take_inv [OF Suc.prems(1)] Suc.prems(2) t by simp_all
  have "card (used s1) + n \<le> capacity s1"
    using Suc.prems(2) i s1 used_finite [OF Suc.prems(1)] by simp
  note IH = Suc.IH [OF s1(1) this ys]
  have "xs = i # ys" "s' = s2" using Suc.prems(3) t ys by simp_all
  with IH i s1 show ?case by auto
qed simp

lemma take_exhausted:
  assumes "pool_inv s" "takes take_slot (capacity s - card (used s)) s = (xs, s')"
  shows "take_slot s' = (capacity s, s')"
proof -
  have le: "card (used s) \<le> capacity s" 
    using card_mono [OF finite_lessThan used_bound [OF assms(1)]] by simp
  then have t: "distinct xs" "length xs = capacity s - card (used s)" "set xs \<inter> used s = {}"
    "used s' = used s \<union> set xs" "pool_inv s'" "capacity s' = capacity s"
    using takes_fresh [OF assms(1) _ assms(2)] by auto
  then have "card (used s') = capacity s"
    using le used_finite [OF assms(1)] by (simp add: card_Un_disjoint distinct_card inf_commute)
  with t have "used s' = {..<capacity s'}" using used_bound [of s'] by (intro card_subset_eq) auto
  with t show ?thesis using take_full [of s'] by simp
qed

end

text \<open>The bitmap under its mutex is such a pool, when its size fits the 32-bit result of the scan.\<close>

abbreviation stripe_pool_inv :: "BitMap \<Rightarrow> bool" where
  "stripe_pool_inv bm \<equiv> bitmap_inv bm \<and> numBits bm < 2 ^ 32"

lemma SetNextZeroBit_eq: "stripe_pool_inv bm \<Longrightarrow>
    BitMapMutex_SetNextZeroBit bm = (BitMap_FindNextZero bm, snd (BitMap_SetBit (BitMap_FindNextZero bm) bm))"
  using FindNextZero_cases [of bm] unfolding BitMapMutex_SetNextZeroBit_def Let_def
  by (metis order_le_less_trans order_less_imp_le order_refl u32_id)

interpretation wbpool: slot_pool stripe_pool_inv bits numBits BitMapMutex_SetNextZeroBit
  "\<lambda>i bm. snd (BitMap_ClearBit i bm)"
proof unfold_locales
  fix s :: BitMap and i :: nat
  assume inv: "stripe_pool_inv s"
  then have wf: "bitmap_wf s" by (simp add: bitmap_inv_def)
  note eq = SetNextZeroBit_eq [OF inv]
  show "bits s \<subseteq> {..<numBits s}" by (rule bits_subset)
  show "stripe_pool_inv (snd (BitMapMutex_SetNextZeroBit s)) \<and>
      numBits (snd (BitMapMutex_SetNextZeroBit s)) = numBits s"
    using inv by (simp add: eq SetBit_inv)
  show "fst (BitMapMutex_SetNextZeroBit s) < numBits s \<and> fst (BitMapMutex_SetNextZeroBit s) \<notin> bits s \<and>
      bits (snd (BitMapMutex_SetNextZeroBit s)) = insert (fst (BitMapMutex_SetNextZeroBit s)) (bits s)"
    if "bits s \<noteq> {..<numBits s}"
    using FindNextZero_cases [of s] inv that wf by (simp add: eq bits_SetBit)
  show "BitMapMutex_SetNextZeroBit s = (numBits s, s)" if "bits s = {..<numBits s}"
    using FindNextZero_cases [of s] inv that by (auto simp: eq SetBit_invalid)
  show "stripe_pool_inv (snd (BitMap_ClearBit i s)) \<and> numBits (snd (BitMap_ClearBit i s)) = numBits s \<and>
      bits (snd (BitMap_ClearBit i s)) = bits s - {i}"
  proof (cases "i < numBits s")
    case False
    then have "i \<notin> bits s" by (simp add: bits_def)
    with False inv show ?thesis by (simp add: ClearBit_invalid)
  qed (use inv wf in \<open>simp add: ClearBit_inv bits_ClearBit\<close>)
qed

section \<open>Properties\<close>

text \<open>A bitmap of 70 bits as the constructor leaves it, and one with its first two bits taken.\<close>

definition freshMap :: BitMap where
  "freshMap = \<lparr>bmap = [0, 0], numBits = 70, numEntry = 2, numBitsSet = 0, lastSetPosition = 69,
     pastEnd = (\<lambda>_. 0)\<rparr>"

lemma freshMap_new: "BitMap_new (\<lambda>_. 0) 70 = Inr freshMap"
  by (simp add: BitMap_new_def freshMap_def assertion_def Let_def)

lemma freshMap_inv: "bitmap_inv freshMap" "bits freshMap = {}" "numBits freshMap = 70"
  using BitMap_new_inv [OF freshMap_new] by simp_all

lemma freshMap_wf: "bitmap_wf freshMap"
  using freshMap_inv(1) by (simp add: bitmap_inv_def)

text \<open>
  C7. Stripe allocation from the bitmap: \<open>n\<close> calls of \<open>BitMapMutex::SetNextZeroBit\<close> on a bitmap with at
  least \<open>n\<close> clear bits give \<open>n\<close> pairwise different positions, none of which was set before; afterwards
  exactly these are set in addition, and the count of set bits is still right.
\<close>

theorem SetNextZeroBit_fresh:
  assumes "bitmap_inv bm" "numBits bm < 2 ^ 32" "card (bits bm) + n \<le> numBits bm"
    and "takes BitMapMutex_SetNextZeroBit n bm = (xs, bm')"
  shows "distinct xs \<and> length xs = n \<and> set xs \<inter> bits bm = {} \<and> set xs \<subseteq> {..<numBits bm} \<and>
    bits bm' = bits bm \<union> set xs \<and> bitmap_inv bm'"
  using wbpool.takes_fresh [of bm n xs bm'] assms by blast

theorem SetNextZeroBit_fresh_witness:
  "distinct (fst (takes BitMapMutex_SetNextZeroBit 3 freshMap)) \<and>
   bits (snd (takes BitMapMutex_SetNextZeroBit 3 freshMap)) =
     set (fst (takes BitMapMutex_SetNextZeroBit 3 freshMap))"
  using SetNextZeroBit_fresh [of freshMap 3 "fst (takes BitMapMutex_SetNextZeroBit 3 freshMap)"
      "snd (takes BitMapMutex_SetNextZeroBit 3 freshMap)"] freshMap_inv by simp

text \<open>
  Once every free position has been handed out, \<open>BitMapMutex::SetNextZeroBit\<close> returns the size of the
  bitmap and changes nothing: the exhausted bitmap is reported, and no stripe is handed out twice.
\<close>

theorem SetNextZeroBit_exhausted:
  assumes "bitmap_inv bm" "numBits bm < 2 ^ 32"
    and "takes BitMapMutex_SetNextZeroBit (numBits bm - card (bits bm)) bm = (xs, bm')"
  shows "BitMapMutex_SetNextZeroBit bm' = (numBits bm, bm')"
  using wbpool.take_exhausted [of bm xs bm'] assms by blast

theorem SetNextZeroBit_exhausted_witness:
  "fst (BitMapMutex_SetNextZeroBit (snd (takes BitMapMutex_SetNextZeroBit 70 freshMap))) = 70"
  using SetNextZeroBit_exhausted [of freshMap "fst (takes BitMapMutex_SetNextZeroBit 70 freshMap)"
      "snd (takes BitMapMutex_SetNextZeroBit 70 freshMap)"] freshMap_inv by simp

text \<open>
  C16. The word-wise scans for a clear bit (\<open>BitMap::FindFirstZero\<close> with no, one and two arguments) agree
  with the bit-by-bit definition of the first clear position, whatever memory holds past the array.
\<close>

theorem FindFirstZero_correct:
  assumes "bitmap_wf bm"
  shows "BitMap_FindFirstZero bm = firstFree (bits bm) (numBits bm) 0 \<and>
    BitMap_FindFirstZeroFrom bm b = firstFree (bits bm) (numBits bm) b \<and>
    (b < numBits bm \<and> e < numBits bm \<longrightarrow> BitMap_FindFirstZeroIn bm b e =
      (let r = firstFree (bits bm) (numBits bm) b in if r \<le> e then r else numBits bm))"
  using assms by (simp add: FindFirstZero_firstFree FindFirstZeroFrom_firstFree FindFirstZeroIn_firstFree)

theorem FindFirstZero_correct_witness:
  "BitMap_FindFirstZero freshMap = 0 \<and> BitMap_FindFirstZeroIn freshMap 65 69 = 65"
  using FindFirstZero_correct [OF freshMap_wf, of 65 69]
  by (simp add: freshMap_inv firstFree_def upt_rec)

text \<open>
  \<open>BitMap::FindFirstSet\<close> returns, on every bitmap of fewer than \<open>2 ^ 31\<close> bits, the first set position at
  or after its argument, and the size of the bitmap when there is none.
\<close>

theorem FindFirstSet_correct:
  assumes "bitmap_wf bm" "numBits bm < 2 ^ 31"
  shows "BitMap_FindFirstSet bm b = Some (firstFree (- bits bm) (numBits bm) b)"
  using assms by (rule FindFirstSet_firstFree)

theorem FindFirstSet_correct_witness: "BitMap_FindFirstSet freshMap 3 = Some 70"
proof -
  have "firstFree (- bits freshMap) (numBits freshMap) 3 = numBits freshMap"
    by (rule firstFree_none) (simp add: freshMap_inv)
  with FindFirstSet_correct [OF freshMap_wf, of 3] show ?thesis by (simp add: freshMap_inv)
qed


definition usedMap :: BitMap where
  "usedMap = snd (BitMap_SetBit 1 (snd (BitMap_SetBit 0 freshMap)))"

lemma usedMap_inv: "bitmap_inv usedMap" "bits usedMap = {0, 1}" "numBits usedMap = 70"
  using freshMap_inv freshMap_wf
  by (simp_all add: usedMap_def SetBit_inv SetBit_wf bits_SetBit insert_commute)


text \<open>
  Clearing bits that are not set still subtracts the length of the range from the count. The next
  allocation that has to wrap around then finds the bitmap full although 69 bits are clear.
\<close>

definition driftedMap :: BitMap where
  "driftedMap =
     snd (BitMap_SetBit 68 (snd (BitMap_SetBit 69 (snd (BitMap_ClearBits 0 0 3 freshMap)))))"

lemma ClearBits_count_drifts:
  "bits driftedMap = {68, 69}" "numBitsSet driftedMap = - 2" "lastSetPosition driftedMap = 68"
  "fst (BitMapMutex_SetNextZeroBit driftedMap) = 70"
proof -
  let ?c = "snd (BitMap_ClearBits 0 0 3 freshMap)"
  note E = ClearBits_effect [OF freshMap_wf, of 0 3]
  have n: "numBits ?c = 70" by code_simp
  have c: "bitmap_wf ?c" "bits ?c = {}" "numBitsSet ?c = - 4"
    using E by (simp_all add: freshMap_inv) (simp add: freshMap_def)
  show b: "bits driftedMap = {68, 69}"
    unfolding driftedMap_def using c n by (simp add: bits_SetBit SetBit_wf)
  have "\<not> BitMap_IsSetBit ?c 69" "\<not> BitMap_IsSetBit (snd (BitMap_SetBit 69 ?c)) 68"
    using c n by (auto simp: SetBit_IsSetBit bits_def)
  then show m: "numBitsSet driftedMap = - 2" and l: "lastSetPosition driftedMap = 68"
    unfolding driftedMap_def using c n by (simp_all add: SetBit_new)
  have d: "bitmap_wf driftedMap" "numBits driftedMap = 70"
    unfolding driftedMap_def using c n by (simp_all add: SetBit_wf)
  have "firstFree (bits driftedMap) 70 69 = 70" by (rule firstFree_none) (auto simp: b)
  then show "fst (BitMapMutex_SetNextZeroBit driftedMap) = 70"
    using FindFirstZeroFrom_firstFree [OF d(1), of 69] d m l
    by (simp add: BitMapMutex_SetNextZeroBit_def BitMap_FindNextZero_def Let_def)
qed

end
