(* ===== verification/SegmentInfo.thy ===== *)
theory SegmentInfo
  imports PosPrelude
begin

text \<open>
  The state of one segment (\<^verbatim>\<open>src/allocator/context_manager/segment_ctx/segment_info.cpp\<close>): its count of
  valid blocks, its count of stripes in use and its state, with the operations of class \<open>SegmentInfo\<close>.

  The counters are atomic but the state is read under a mutex taken afterwards, so
  \<open>DecreaseValidBlockCount\<close> is written as its two atomic parts. The last section interleaves them with
  the other operations on the segment.
\<close>

section \<open>State\<close>

datatype SegmentState = FREE | NVRAM | SSD | VICTIM

record SegmentInfo =
  validBlockCount :: uint32
  occupiedStripeCount :: uint32
  state :: SegmentState

section \<open>Operations\<close>

definition SegmentInfo_new :: SegmentInfo where
  "SegmentInfo_new = \<lparr>validBlockCount = 0, occupiedStripeCount = 0, state = FREE\<rparr>"

definition SegmentInfo_SetValidBlockCount :: "int \<Rightarrow> SegmentInfo \<Rightarrow> SegmentInfo" where
  "SegmentInfo_SetValidBlockCount cnt si = si\<lparr>validBlockCount := of_int cnt\<rparr>"

definition SegmentInfo_IncreaseValidBlockCount :: "uint32 \<Rightarrow> SegmentInfo \<Rightarrow> uint32 \<times> SegmentInfo" where
  "SegmentInfo_IncreaseValidBlockCount inc si =
     (validBlockCount si + inc, si\<lparr>validBlockCount := validBlockCount si + inc\<rparr>)"

definition SegmentInfo_MoveToFreeState :: "SegmentInfo \<Rightarrow> SegmentInfo result" where
  "SegmentInfo_MoveToFreeState si =
     andThen (assertion (state si \<noteq> NVRAM)) (\<lambda>_.
       Inr (si\<lparr>occupiedStripeCount := 0, validBlockCount := 0, state := FREE\<rparr>))"

text \<open>The atomic subtraction, with the new value, and what runs under the mutex when it is zero.\<close>

definition Decrease_fetch_sub :: "uint32 \<Rightarrow> SegmentInfo \<Rightarrow> uint32 \<times> SegmentInfo" where
  "Decrease_fetch_sub dec si =
     (validBlockCount si - dec, si\<lparr>validBlockCount := validBlockCount si - dec\<rparr>)"

definition Decrease_locked :: "SegmentInfo \<Rightarrow> (bool \<times> SegmentInfo) result" where
  "Decrease_locked si =
     (if state si = SSD \<or> state si = VICTIM
      then andThen (SegmentInfo_MoveToFreeState si) (\<lambda>si'. Inr (True, si'))
      else Inr (False, si))"

text \<open>The test \<open>decreased < 0\<close> of the source is on an unsigned value, as it is here.\<close>

definition SegmentInfo_DecreaseValidBlockCount :: "uint32 \<Rightarrow> SegmentInfo \<Rightarrow> (bool \<times> SegmentInfo) result" where
  "SegmentInfo_DecreaseValidBlockCount dec si =
     (let (decreased, si1) = Decrease_fetch_sub dec si
      in if decreased = 0 then Decrease_locked si1
         else if decreased < 0 then Inl AssertFailed
         else Inr (False, si1))"

definition SegmentInfo_SetOccupiedStripeCount :: "uint32 \<Rightarrow> SegmentInfo \<Rightarrow> SegmentInfo" where
  "SegmentInfo_SetOccupiedStripeCount cnt si = si\<lparr>occupiedStripeCount := cnt\<rparr>"

definition SegmentInfo_IncreaseOccupiedStripeCount :: "SegmentInfo \<Rightarrow> uint32 \<times> SegmentInfo" where
  "SegmentInfo_IncreaseOccupiedStripeCount si =
     (occupiedStripeCount si + 1, si\<lparr>occupiedStripeCount := occupiedStripeCount si + 1\<rparr>)"

definition SegmentInfo_MoveToNvramState :: "SegmentInfo \<Rightarrow> SegmentInfo result" where
  "SegmentInfo_MoveToNvramState si =
     (if state si \<noteq> FREE then Inl AssertFailed else Inr (si\<lparr>state := NVRAM\<rparr>))"

definition SegmentInfo_MoveToSsdStateOrFreeStateIfItBecomesEmpty ::
    "SegmentInfo \<Rightarrow> (bool \<times> SegmentInfo) result" where
  "SegmentInfo_MoveToSsdStateOrFreeStateIfItBecomesEmpty si =
     (let si1 = si\<lparr>state := SSD\<rparr>
      in if validBlockCount si1 = 0
         then andThen (SegmentInfo_MoveToFreeState si1) (\<lambda>si2. Inr (True, si2))
         else Inr (False, si1))"

definition SegmentInfo_MoveToVictimState :: "SegmentInfo \<Rightarrow> SegmentInfo result" where
  "SegmentInfo_MoveToVictimState si =
     (if state si \<noteq> SSD then Inl AssertFailed else Inr (si\<lparr>state := VICTIM\<rparr>))"

abbreviation (input) UINT32_MAX :: uint32 where
  "UINT32_MAX \<equiv> - 1"

definition SegmentInfo_GetValidBlockCountIfSsdState :: "SegmentInfo \<Rightarrow> uint32" where
  "SegmentInfo_GetValidBlockCountIfSsdState si = (if state si \<noteq> SSD then UINT32_MAX else validBlockCount si)"

lemmas segment_info_defs [pos_defs] =
  SegmentInfo_new_def SegmentInfo_IncreaseValidBlockCount_def SegmentInfo_MoveToFreeState_def
  Decrease_fetch_sub_def Decrease_locked_def SegmentInfo_DecreaseValidBlockCount_def
  SegmentInfo_IncreaseOccupiedStripeCount_def SegmentInfo_MoveToNvramState_def
  SegmentInfo_MoveToSsdStateOrFreeStateIfItBecomesEmpty_def SegmentInfo_MoveToVictimState_def

section \<open>What each operation does\<close>

lemma MoveToFreeState_new: "state si \<noteq> NVRAM \<Longrightarrow> SegmentInfo_MoveToFreeState si = Inr SegmentInfo_new"
  by (simp add: segment_info_defs)

text \<open>\<open>DecreaseValidBlockCount\<close> never stops: the branch for an underflow cannot be reached.\<close>

lemma DecreaseValidBlockCount_eq:
  "SegmentInfo_DecreaseValidBlockCount dec si =
     Inr (if validBlockCount si = dec \<and> (state si = SSD \<or> state si = VICTIM) then (True, SegmentInfo_new)
          else (False, si\<lparr>validBlockCount := validBlockCount si - dec\<rparr>))"
  by (cases "state si") (auto simp: segment_info_defs)

lemma MoveToSsdOrFree_eq:
  "SegmentInfo_MoveToSsdStateOrFreeStateIfItBecomesEmpty si =
     Inr (if validBlockCount si = 0 then (True, SegmentInfo_new) else (False, si\<lparr>state := SSD\<rparr>))"
  by (simp add: segment_info_defs)

lemma GetValidBlockCountIfSsdState_less:
  "SegmentInfo_GetValidBlockCountIfSsdState si < c \<longleftrightarrow> state si = SSD \<and> validBlockCount si < c"
  by (simp add: SegmentInfo_GetValidBlockCountIfSsdState_def word_order.extremum_strict)

section \<open>Interleaving of the operations on one segment\<close>

text \<open>
  The segment with two auxiliary counts: the calls of \<open>DecreaseValidBlockCount\<close> that have seen zero and
  not yet taken the mutex, and the blocks written to the segment and not invalidated. Blocks are written
  to a segment while it is in state \<open>NVRAM\<close>. With \<open>overlap\<close> false a block is only written when no such
  call is under way.
\<close>

record SegmentRun =
  seg :: SegmentInfo
  pendingFree :: nat
  liveBlocks :: nat

definition SegmentRun_init :: SegmentRun where
  "SegmentRun_init = \<lparr>seg = SegmentInfo_new, pendingFree = 0, liveBlocks = 0\<rparr>"

inductive segmentStep :: "nat \<Rightarrow> bool \<Rightarrow> SegmentRun \<Rightarrow> SegmentRun \<Rightarrow> bool"
  for blksPerSegment overlap where
  allocate: "SegmentInfo_MoveToNvramState (seg s) = Inr si \<Longrightarrow>
    segmentStep blksPerSegment overlap s (s\<lparr>seg := si\<rparr>)"
| writeBlocks: "state (seg s) = NVRAM \<Longrightarrow> liveBlocks s + n \<le> blksPerSegment \<Longrightarrow> overlap \<or> pendingFree s = 0 \<Longrightarrow>
    segmentStep blksPerSegment overlap s
      (s\<lparr>seg := snd (SegmentInfo_IncreaseValidBlockCount (of_nat n) (seg s)), liveBlocks := liveBlocks s + n\<rparr>)"
| invalidate: "n \<le> liveBlocks s \<Longrightarrow> Decrease_fetch_sub (of_nat n) (seg s) = (decreased, si) \<Longrightarrow>
    segmentStep blksPerSegment overlap s
      (s\<lparr>seg := si, pendingFree := pendingFree s + (if decreased = 0 then 1 else 0),
         liveBlocks := liveBlocks s - n\<rparr>)"
| tryFree: "0 < pendingFree s \<Longrightarrow> Decrease_locked (seg s) = Inr (freed, si) \<Longrightarrow>
    segmentStep blksPerSegment overlap s (s\<lparr>seg := si, pendingFree := pendingFree s - 1\<rparr>)"
| allStripesFlushed: "state (seg s) = NVRAM \<Longrightarrow>
    SegmentInfo_MoveToSsdStateOrFreeStateIfItBecomesEmpty (seg s) = Inr (freed, si) \<Longrightarrow>
    segmentStep blksPerSegment overlap s (s\<lparr>seg := si\<rparr>)"
| victimise: "SegmentInfo_MoveToVictimState (seg s) = Inr si \<Longrightarrow>
    segmentStep blksPerSegment overlap s (s\<lparr>seg := si\<rparr>)"

inductive_cases segmentStepE: "segmentStep c ov s s'"

abbreviation segmentReach :: "nat \<Rightarrow> bool \<Rightarrow> SegmentRun \<Rightarrow> bool" where
  "segmentReach c ov s \<equiv> (segmentStep c ov)\<^sup>*\<^sup>* SegmentRun_init s"

definition segmentRun_inv :: "nat \<Rightarrow> SegmentRun \<Rightarrow> bool" where
  "segmentRun_inv c s \<longleftrightarrow> unat (validBlockCount (seg s)) = liveBlocks s \<and> liveBlocks s \<le> c \<and>
     (0 < pendingFree s \<longrightarrow> liveBlocks s = 0) \<and> (state (seg s) = FREE \<longrightarrow> liveBlocks s = 0)"

lemma unat_sub_of_nat:
  assumes "n \<le> unat (w :: uint32)"
  shows "unat (w - of_nat n) = unat w - n"
proof -
  have "unat w < 2 ^ 32" by (rule order_less_le_trans [OF unsigned_less]) simp
  with assms have "n < 2 ^ 32" by simp
  then have "unat (of_nat n :: uint32) = n" by (simp add: unat_of_nat take_bit_nat_eq_self)
  with assms show ?thesis by (simp add: unat_sub word_le_nat_alt)
qed

lemma unat_add_of_nat:
  assumes "unat (w :: uint32) + n < 2 ^ 32"
  shows "unat (w + of_nat n) = unat w + n"
  using assms by (simp add: unat_word_ariths unat_of_nat take_bit_nat_eq_self)

lemma segmentStep_inv [pos_inv]:
  assumes "segmentStep c False s s'" "segmentRun_inv c s" "c < 2 ^ 32"
  shows "segmentRun_inv c s'"
  using assms(1)
proof cases
  case (writeBlocks n)
  then show ?thesis using assms(2,3)
    by (auto simp: segmentRun_inv_def SegmentInfo_IncreaseValidBlockCount_def unat_add_of_nat)
next
  case (invalidate n decreased si)
  then have "unat decreased = liveBlocks s - n" "si = (seg s)\<lparr>validBlockCount := decreased\<rparr>"
    using assms(2) by (auto simp: segmentRun_inv_def Decrease_fetch_sub_def unat_sub_of_nat)
  moreover from this(1) have "decreased = 0 \<Longrightarrow> liveBlocks s - n = 0" by simp
  ultimately show ?thesis using assms(2) invalidate(1) by (auto simp: segmentRun_inv_def)
next
  case (allStripesFlushed freed si)
  then show ?thesis using assms(2)
    by (auto simp: segmentRun_inv_def MoveToSsdOrFree_eq SegmentInfo_new_def split: if_splits)
qed (use assms(2) in \<open>auto simp: segmentRun_inv_def segment_info_defs split: if_splits\<close>)

lemma segmentReach_inv:
  assumes "segmentReach c False s" "c < 2 ^ 32"
  shows "segmentRun_inv c s"
  using assms(1)
proof (induction rule: rtranclp_induct)
  case base
  then show ?case by (simp add: segmentRun_inv_def SegmentRun_init_def SegmentInfo_new_def)
qed (use segmentStep_inv assms(2) in blast)

section \<open>Properties\<close>

text \<open>
  C3. Safety of reclaiming a segment: on every interleaving of allocation, block writes, invalidations,
  the delayed tests of invalidations, stripe flushes and victim selection in which no block is written
  while an invalidation that has seen zero is still under way, the count of valid blocks is the number
  of live blocks, and a segment in state \<open>FREE\<close> holds no live block.
\<close>

theorem segment_free_is_empty:
  assumes "segmentReach blksPerSegment False s" "blksPerSegment < 2 ^ 32"
  shows "unat (validBlockCount (seg s)) = liveBlocks s \<and> (state (seg s) = FREE \<longrightarrow> liveBlocks s = 0)"
  using segmentReach_inv [OF assms] by (simp add: segmentRun_inv_def)

definition SegmentRun_written :: SegmentRun where
  "SegmentRun_written = \<lparr>seg = \<lparr>validBlockCount = 2, occupiedStripeCount = 0, state = NVRAM\<rparr>,
     pendingFree = 0, liveBlocks = 2\<rparr>"

lemma allocate_write: "1 \<le> n \<Longrightarrow> n < 4 \<Longrightarrow> segmentReach 8 ov
    \<lparr>seg = \<lparr>validBlockCount = of_nat n, occupiedStripeCount = 0, state = NVRAM\<rparr>, pendingFree = 0, liveBlocks = n\<rparr>"
proof -
  let ?a = "SegmentRun_init\<lparr>seg := SegmentInfo_new\<lparr>state := NVRAM\<rparr>\<rparr>"
  assume n: "1 \<le> n" "n < 4"
  have "segmentStep 8 ov SegmentRun_init ?a"
    by (rule segmentStep.allocate) (simp add: SegmentRun_init_def segment_info_defs)
  moreover have "segmentStep 8 ov ?a (?a\<lparr>seg := snd (SegmentInfo_IncreaseValidBlockCount (of_nat n) (seg ?a)),
      liveBlocks := liveBlocks ?a + n\<rparr>)"
    using n by (intro segmentStep.writeBlocks) (simp_all add: SegmentRun_init_def)
  ultimately show ?thesis
    by (simp add: SegmentRun_init_def SegmentInfo_new_def SegmentInfo_IncreaseValidBlockCount_def)
qed

theorem segment_free_is_empty_witness:
  "unat (validBlockCount (seg SegmentRun_written)) = liveBlocks SegmentRun_written"
  using segment_free_is_empty [of 8 SegmentRun_written] allocate_write [of 2 False]
  by (simp add: SegmentRun_written_def)



end
