(* ===== verification/AddressTypes.thy ===== *)
theory AddressTypes
  imports PosPrelude
begin

text \<open>
  The addresses the components exchange (\<^verbatim>\<open>src/include/address_type.h\<close>) and the sizes the allocator
  works with (\<^verbatim>\<open>src/allocator/address/allocator_address_info.cpp\<close>). A stripe number has 30 bits in an
  address, a block offset 33 bits, a segment number 32 bits; the largest value of each means unmapped.
\<close>

abbreviation (input) UNMAP_SEGMENT :: nat where
  "UNMAP_SEGMENT \<equiv> 2 ^ 32 - 1"

abbreviation (input) NEED_TO_RETRY :: nat where
  "NEED_TO_RETRY \<equiv> UNMAP_SEGMENT - 1"

abbreviation (input) UNMAP_STRIPE :: nat where
  "UNMAP_STRIPE \<equiv> 2 ^ 30 - 1"

abbreviation (input) UNMAP_OFFSET :: nat where
  "UNMAP_OFFSET \<equiv> 2 ^ 33 - 1"

text \<open>The event numbers (\<^verbatim>\<open>src/include/pos_event_id.h\<close>) that the allocator returns.\<close>

abbreviation (input) ALLOCATOR_META_ARCHIVE_FLUSH_IN_PROGRESS :: int where
  "ALLOCATOR_META_ARCHIVE_FLUSH_IN_PROGRESS \<equiv> 3154"

abbreviation (input) ALLOCATOR_REBUILD_TARGET_SET_EMPTY :: int where
  "ALLOCATOR_REBUILD_TARGET_SET_EMPTY \<equiv> 3159"

abbreviation (input) ALLOCATOR_NO_FREE_SEGMENT :: int where
  "ALLOCATOR_NO_FREE_SEGMENT \<equiv> 3163"

abbreviation (input) ALLOCATOR_CANNOT_ALLOCATE_STRIPE :: int where
  "ALLOCATOR_CANNOT_ALLOCATE_STRIPE \<equiv> 3166"

record VirtualBlkAddr =
  vsaStripe :: nat
  vsaOffset :: nat

record VirtualBlks =
  startVsa :: VirtualBlkAddr
  numBlks :: nat

record LogicalBlkAddr =
  lsaStripe :: nat
  lsaOffset :: nat

record FtBlkAddr =
  ftStripe :: nat
  ftOffset :: nat

datatype StripeLoc = IN_USER_AREA | IN_WRITE_BUFFER_AREA

record StripeAddr =
  stripeLoc :: StripeLoc
  stripeAddrId :: nat

text \<open>Construction of an address truncates to the width of the bit field.\<close>

definition mkVsa :: "nat \<Rightarrow> nat \<Rightarrow> VirtualBlkAddr" where
  "mkVsa s off = \<lparr>vsaStripe = s mod 2 ^ 30, vsaOffset = off mod 2 ^ 33\<rparr>"

definition UNMAP_VSA :: VirtualBlkAddr where
  "UNMAP_VSA = \<lparr>vsaStripe = UNMAP_STRIPE, vsaOffset = UNMAP_OFFSET\<rparr>"

definition IsUnMapVsa :: "VirtualBlkAddr \<Rightarrow> bool" where
  "IsUnMapVsa vsa = (vsaStripe vsa = UNMAP_STRIPE \<and> vsaOffset vsa = UNMAP_OFFSET)"

definition IsUnMapStripe :: "nat \<Rightarrow> bool" where
  "IsUnMapStripe s = (s = UNMAP_STRIPE)"

lemma mkVsa_small [simp]:
  "s < 2 ^ 30 \<Longrightarrow> vsaStripe (mkVsa s off) = s"
  "off < 2 ^ 33 \<Longrightarrow> vsaOffset (mkVsa s off) = off"
  by (simp_all add: mkVsa_def)

lemma IsUnMapVsa_iff: "IsUnMapVsa vsa \<longleftrightarrow> vsa = UNMAP_VSA"
  by (cases vsa) (simp add: IsUnMapVsa_def UNMAP_VSA_def)

section \<open>Sizes of the allocator\<close>

record AllocatorAddressInfo =
  blksPerStripe :: nat
  chunksPerStripe :: nat
  numWbStripes :: nat
  numUserAreaStripes :: nat
  blksPerSegment :: nat
  stripesPerSegment :: nat
  numUserAreaSegments :: nat
  isUT :: bool

text \<open>The sizes of a partition the array gives (\<open>PartitionLogicalSize\<close>).\<close>

record PartitionLogicalSize =
  minWriteBlkCnt :: nat
  plsBlksPerChunk :: nat
  plsBlksPerStripe :: nat
  plsChunksPerStripe :: nat
  plsStripesPerSegment :: nat
  totalStripes :: nat
  totalSegments :: nat

definition AllocatorAddressInfo_Init :: "PartitionLogicalSize \<Rightarrow> PartitionLogicalSize \<Rightarrow> AllocatorAddressInfo" where
  "AllocatorAddressInfo_Init udSize wbSize =
     \<lparr>blksPerStripe = plsBlksPerStripe udSize, chunksPerStripe = plsChunksPerStripe udSize,
      numWbStripes = totalStripes wbSize, numUserAreaStripes = totalStripes udSize,
      blksPerSegment = u32 (plsBlksPerStripe udSize * plsStripesPerSegment udSize),
      stripesPerSegment = plsStripesPerSegment udSize, numUserAreaSegments = totalSegments udSize, isUT = False\<rparr>"

end
