(* ===== verification/SegmentList.thy ===== *)
theory SegmentList
  imports AddressTypes
begin

text \<open>
  The ordered lists of segments (\<^verbatim>\<open>src/allocator/context_manager/segment_ctx/segment_list.cpp\<close>): class
  \<open>SegmentList\<close>, a \<open>std::set\<close> of segment numbers with a separate counter, each operation under its mutex.
  \<open>begin()\<close> of the set is its least element.
\<close>

section \<open>State and operations\<close>

record SegmentList =
  segments :: "nat set"
  numSegments :: uint32

definition SegmentList_new :: SegmentList where
  "SegmentList_new = \<lparr>segments = {}, numSegments = 0\<rparr>"

definition SegmentList_Reset :: "SegmentList \<Rightarrow> SegmentList" where
  "SegmentList_Reset l = l\<lparr>segments := {}, numSegments := 0\<rparr>"

definition SegmentList_PopSegment :: "SegmentList \<Rightarrow> nat \<times> SegmentList" where
  "SegmentList_PopSegment l =
     (if segments l = {} then (UNMAP_SEGMENT, l)
      else let ret = Min (segments l)
           in (ret, l\<lparr>segments := segments l - {ret}, numSegments := numSegments l - 1\<rparr>))"

definition SegmentList_GetFrontSegment :: "SegmentList \<Rightarrow> nat" where
  "SegmentList_GetFrontSegment l = (if segments l = {} then UNMAP_SEGMENT else Min (segments l))"

definition SegmentList_AddToList :: "nat \<Rightarrow> SegmentList \<Rightarrow> SegmentList" where
  "SegmentList_AddToList segId l =
     l\<lparr>segments := insert segId (segments l), numSegments := numSegments l + 1\<rparr>"

definition SegmentList_RemoveFromList :: "nat \<Rightarrow> SegmentList \<Rightarrow> bool \<times> SegmentList" where
  "SegmentList_RemoveFromList segId l =
     (if segId \<in> segments l then (True, l\<lparr>segments := segments l - {segId}\<rparr>) else (False, l))"

definition SegmentList_GetNumSegments :: "SegmentList \<Rightarrow> uint32" where
  "SegmentList_GetNumSegments l = numSegments l"

definition SegmentList_Contains :: "nat \<Rightarrow> SegmentList \<Rightarrow> bool" where
  "SegmentList_Contains segId l = (segId \<in> segments l)"

definition SegmentList_SetList :: "nat set \<Rightarrow> SegmentList \<Rightarrow> SegmentList" where
  "SegmentList_SetList ls l = l\<lparr>segments := ls, numSegments := of_nat (card ls)\<rparr>"

definition SegmentList_GetList :: "SegmentList \<Rightarrow> nat set" where
  "SegmentList_GetList l = segments l"

lemmas segment_list_defs [pos_defs] =
  SegmentList_new_def SegmentList_Reset_def SegmentList_PopSegment_def SegmentList_GetFrontSegment_def
  SegmentList_AddToList_def SegmentList_RemoveFromList_def SegmentList_GetNumSegments_def
  SegmentList_Contains_def SegmentList_SetList_def SegmentList_GetList_def

section \<open>The contract of an ordered list of segments\<close>

locale ordered_ids =
  fixes ids_ok :: "'s \<Rightarrow> bool"
    and ids :: "'s \<Rightarrow> nat set"
    and pop :: "'s \<Rightarrow> nat \<times> 's"
    and add :: "nat \<Rightarrow> 's \<Rightarrow> 's"
    and remove :: "nat \<Rightarrow> 's \<Rightarrow> bool \<times> 's"
  assumes ok_finite: "ids_ok s \<Longrightarrow> finite (ids s) \<and> ids s \<subseteq> {..<UNMAP_SEGMENT}"
    and pop_empty: "ids s = {} \<Longrightarrow> pop s = (UNMAP_SEGMENT, s)"
    and pop_least: "ids_ok s \<Longrightarrow> ids s \<noteq> {} \<Longrightarrow>
          fst (pop s) = Min (ids s) \<and> ids (snd (pop s)) = ids s - {Min (ids s)} \<and> ids_ok (snd (pop s))"
    and add_ids: "ids_ok s \<Longrightarrow> i < UNMAP_SEGMENT \<Longrightarrow> ids (add i s) = insert i (ids s) \<and> ids_ok (add i s)"
    and remove_ids: "ids_ok s \<Longrightarrow>
          fst (remove i s) = (i \<in> ids s) \<and> ids (snd (remove i s)) = ids s - {i} \<and> ids_ok (snd (remove i s))"
begin

lemma pop_none_iff:
  assumes "ids_ok s"
  shows "fst (pop s) = UNMAP_SEGMENT \<longleftrightarrow> ids s = {}"
proof (cases "ids s = {}")
  case False
  then have "fst (pop s) \<in> ids s" using pop_least [OF assms False] ok_finite [OF assms] Min_in by simp
  then have "fst (pop s) < UNMAP_SEGMENT" using ok_finite [OF assms] by blast
  with False show ?thesis by simp
qed (simp add: pop_empty)

text \<open>Popping until the list is empty gives the segments in ascending order, each once.\<close>

lemma pop_all:
  "ids_ok s \<Longrightarrow> card (ids s) = n \<Longrightarrow> fst (takes pop n s) = sorted_list_of_set (ids s)"
proof (induction n arbitrary: s)
  case 0
  then show ?case using ok_finite [of s] by simp
next
  case (Suc n)
  obtain i s1 where p: "pop s = (i, s1)" by fastforce
  have fin: "finite (ids s)" and ne: "ids s \<noteq> {}" using Suc.prems ok_finite [of s] by auto
  have i: "i = Min (ids s)" "ids s1 = ids s - {i}" "ids_ok s1"
    using pop_least [OF Suc.prems(1) ne] p by simp_all
  have "card (ids s1) = n" using Suc.prems(2) fin ne i by simp
  with Suc.IH [OF i(3)] p have "fst (takes pop (Suc n) s) = i # sorted_list_of_set (ids s1)"
    by (simp add: case_prod_beta)
  with sorted_list_of_set_nonempty [OF fin ne] i show ?case by simp
qed

end

definition segment_list_ok :: "SegmentList \<Rightarrow> bool" where
  "segment_list_ok l \<longleftrightarrow> finite (segments l) \<and> segments l \<subseteq> {..<UNMAP_SEGMENT}"

interpretation seglist: ordered_ids segment_list_ok segments SegmentList_PopSegment SegmentList_AddToList
  SegmentList_RemoveFromList
  by unfold_locales (auto simp: segment_list_ok_def segment_list_defs Let_def)

section \<open>The counter\<close>

text \<open>
  The counter is right when the list is only filled with new segments, popped, reset or set. Adding a
  segment twice counts it twice, and \<open>RemoveFromList\<close> does not count.
\<close>

definition counted :: "SegmentList \<Rightarrow> bool" where
  "counted l \<longleftrightarrow> finite (segments l) \<and> numSegments l = of_nat (card (segments l))"

lemma counted_Reset [simp]: "counted (SegmentList_Reset l)"
  by (simp add: counted_def SegmentList_Reset_def)

lemma counted_SetList [simp]: "finite ls \<Longrightarrow> counted (SegmentList_SetList ls l)"
  by (simp add: counted_def SegmentList_SetList_def)

lemma counted_AddToList: "counted l \<Longrightarrow> i \<notin> segments l \<Longrightarrow> counted (SegmentList_AddToList i l)"
  by (simp add: counted_def SegmentList_AddToList_def)

lemma counted_PopSegment: "counted l \<Longrightarrow> counted (snd (SegmentList_PopSegment l))"
proof (cases "segments l = {}")
  case False
  assume c: "counted l"
  then have "card (segments l) = Suc (card (segments l - {Min (segments l)}))"
    using False Min_in [of "segments l"] card_Suc_Diff1 [of "segments l" "Min (segments l)"]
    by (simp add: counted_def)
  with c False show ?thesis by (simp add: counted_def SegmentList_PopSegment_def Let_def)
qed (simp add: SegmentList_PopSegment_def)

lemma RemoveFromList_not_counted:
  assumes "counted l" "i \<in> segments l"
  shows "numSegments (snd (SegmentList_RemoveFromList i l)) =
    of_nat (Suc (card (segments (snd (SegmentList_RemoveFromList i l)))))"
proof -
  have "Suc (card (segments l - {i})) = card (segments l)"
    using assms by (intro card_Suc_Diff1) (simp_all add: counted_def)
  then have "numSegments l = of_nat (Suc (card (segments l - {i})))"
    using assms by (simp only: counted_def)
  with assms(2) show ?thesis by (simp only: SegmentList_RemoveFromList_def if_True snd_conv)
      (simp del: card_Diff_insert card_Diff_singleton of_nat_Suc)
qed

section \<open>Properties\<close>

text \<open>
  Popping a segment list until it is empty returns every segment of the list exactly once, in
  ascending order, and then \<open>UNMAP_SEGMENT\<close>.
\<close>

theorem PopSegment_ascending:
  assumes "finite (segments l)" "segments l \<subseteq> {..<UNMAP_SEGMENT}"
  shows "fst (takes SegmentList_PopSegment (card (segments l)) l) = sorted_list_of_set (segments l)"
  using seglist.pop_all [of l] assms by (simp add: segment_list_ok_def)

theorem PopSegment_ascending_witness:
  "fst (takes SegmentList_PopSegment 3 (SegmentList_SetList {7, 2, 5} SegmentList_new)) = [2, 5, 7]"
  using PopSegment_ascending [of "SegmentList_SetList {7, 2, 5} SegmentList_new"]
  by (simp add: SegmentList_SetList_def SegmentList_new_def numeral_3_eq_3)

text \<open>
  C20. The counter of a segment list exceeds the number of its segments by one after \<open>RemoveFromList\<close> has
  removed a segment from a list whose counter was right, so an emptied list still reports a segment.
\<close>

theorem RemoveFromList_counter_drift:
  assumes "finite (segments l)" "numSegments l = of_nat (card (segments l))" "i \<in> segments l"
  shows "fst (SegmentList_RemoveFromList i l) \<and>
    SegmentList_GetNumSegments (snd (SegmentList_RemoveFromList i l)) =
      of_nat (card (segments (snd (SegmentList_RemoveFromList i l)))) + 1"
  using RemoveFromList_not_counted [of l i] assms
  by (simp add: counted_def SegmentList_GetNumSegments_def SegmentList_RemoveFromList_def)

theorem RemoveFromList_counter_drift_witness:
  "segments (snd (SegmentList_RemoveFromList 4 (SegmentList_SetList {4} SegmentList_new))) = {} \<and>
   SegmentList_GetNumSegments (snd (SegmentList_RemoveFromList 4 (SegmentList_SetList {4} SegmentList_new))) = 1"
  using RemoveFromList_counter_drift [of "SegmentList_SetList {4} SegmentList_new" 4]
  by (simp add: SegmentList_SetList_def SegmentList_new_def SegmentList_RemoveFromList_def)

end
