(* ===== verification/AllocatorFileIo.thy ===== *)
theory AllocatorFileIo
  imports PosPrelude
begin

text \<open>
  Storing and loading of the allocator contexts (\<^verbatim>\<open>src/allocator/context_manager/allocator_file_io.cpp\<close>
  and the headers of \<^verbatim>\<open>src/allocator/include/allocator_const.h\<close>). A context is a list of memory sections;
  a file holds the sections one after the other. The metadata file itself (\<open>MetaFileIntf\<close>) is outside:
  what its calls return is an argument of the operations.
\<close>

section \<open>Headers\<close>

record CtxHeader =
  sig :: nat
  ctxVersion :: uint64

record AllocatorCtxHeader = CtxHeader +
  numValidWbLsid :: uint32

record SegmentCtxHeader = CtxHeader +
  numValidSegment :: uint32

record RebuildCtxHeader = CtxHeader +
  numTargetSegments :: uint32

section \<open>Sections\<close>

text \<open>\<open>hasAddr\<close> tells whether the pointer of the section is not null; the memory is a list of buffers.\<close>

record ContextSection =
  hasAddr :: bool
  secSize :: nat
  secOffset :: nat

fun AllocatorFileIo_UpdateSectionInfo :: "(bool \<times> nat) list \<Rightarrow> nat \<Rightarrow> ContextSection list \<times> nat" where
  "AllocatorFileIo_UpdateSectionInfo [] currentOffset = ([], currentOffset)"
| "AllocatorFileIo_UpdateSectionInfo ((a, sz) # rest) currentOffset =
     (let (secs, fileSize) = AllocatorFileIo_UpdateSectionInfo rest (currentOffset + sz)
      in (\<lparr>hasAddr = a, secSize = sz, secOffset = currentOffset\<rparr> # secs, fileSize))"

definition memcpy :: "'b list \<Rightarrow> nat \<Rightarrow> 'b list \<Rightarrow> nat \<Rightarrow> 'b list result" where
  "memcpy dst off src n =
     (if off + n \<le> length dst \<and> n \<le> length src
      then Inr (take off dst @ take n src @ drop (off + n) dst) else Inl OutOfBounds)"

fun AllocatorFileIo_CopySectionData ::
    "ContextSection list \<Rightarrow> 'b list list \<Rightarrow> 'b list \<Rightarrow> 'b list result" where
  "AllocatorFileIo_CopySectionData (sec # secs) (m # mem) buf =
     andThen (if hasAddr sec then memcpy buf (secOffset sec) m (secSize sec) else Inr buf)
       (AllocatorFileIo_CopySectionData secs mem)"
| "AllocatorFileIo_CopySectionData _ _ buf = Inr buf"

fun AllocatorFileIo_LoadSectionData ::
    "ContextSection list \<Rightarrow> 'b list \<Rightarrow> 'b list list \<Rightarrow> 'b list list result" where
  "AllocatorFileIo_LoadSectionData (sec # secs) buf (m # mem) =
     andThen (if hasAddr sec then memcpy m 0 (drop (secOffset sec) buf) (secSize sec) else Inr m) (\<lambda>m'.
       andThen (AllocatorFileIo_LoadSectionData secs buf mem) (\<lambda>mem'. Inr (m' # mem')))"
| "AllocatorFileIo_LoadSectionData _ buf mem = Inr mem"

section \<open>Requests\<close>

text \<open>
  The requests given to the file and not completed yet, with the two counters. \<open>Flush\<close> gets the prepared
  buffer and the value \<open>file->AsyncIO\<close> returns.
\<close>

record 'buf FileIo =
  fileOpened :: bool
  numFilesReading :: int
  numFilesFlushing :: int
  reading :: nat
  flushing :: "'buf list"

definition AllocatorFileIo_Load :: "bool \<Rightarrow> int \<Rightarrow> int \<Rightarrow> 'buf FileIo \<Rightarrow> int \<times> 'buf FileIo" where
  "AllocatorFileIo_Load fileExists createRet ioRet f =
     (if \<not> fileExists
      then if createRet = 0 then (0, f\<lparr>fileOpened := True\<rparr>) else (- 1, f)
      else let f1 = f\<lparr>fileOpened := True, numFilesReading := numFilesReading f + 1\<rparr>
           in if ioRet = 0 then (1, f1\<lparr>reading := reading f1 + 1\<rparr>)
              else (- 1, f1\<lparr>numFilesReading := numFilesReading f1 - 1\<rparr>))"

definition AllocatorFileIo_Flush :: "int \<Rightarrow> 'buf \<Rightarrow> 'buf FileIo \<Rightarrow> int \<times> 'buf FileIo" where
  "AllocatorFileIo_Flush ioRet buf f =
     (let f1 = f\<lparr>numFilesFlushing := numFilesFlushing f + 1\<rparr>
      in if ioRet \<noteq> 0 then (- 1, f1\<lparr>numFilesFlushing := numFilesFlushing f1 - 1\<rparr>)
         else (ioRet, f1\<lparr>flushing := flushing f1 @ [buf]\<rparr>))"

text \<open>The callbacks of completed requests, up to the call of the client.\<close>

definition AllocatorFileIo_LoadCompletedThenCB :: "nat \<Rightarrow> nat \<Rightarrow> 'buf FileIo \<Rightarrow> 'buf FileIo result" where
  "AllocatorFileIo_LoadCompletedThenCB bufSig clientSig f =
     andThen (assertion (bufSig = clientSig)) (\<lambda>_.
       let result = numFilesReading f - 1
       in andThen (assertion (result \<ge> 0)) (\<lambda>_.
            Inr (f\<lparr>numFilesReading := result, reading := reading f - 1\<rparr>)))"

definition AllocatorFileIo_FlushCompletedThenCB :: "nat \<Rightarrow> nat \<Rightarrow> nat \<Rightarrow> 'buf FileIo \<Rightarrow> 'buf FileIo result" where
  "AllocatorFileIo_FlushCompletedThenCB i bufSig clientSig f =
     andThen (assertion (bufSig = clientSig)) (\<lambda>_.
       let result = numFilesFlushing f - 1
       in andThen (assertion (result \<ge> 0)) (\<lambda>_.
            Inr (f\<lparr>numFilesFlushing := result,
                   flushing := take i (flushing f) @ drop (Suc i) (flushing f)\<rparr>)))"

section \<open>Storing and loading are inverse\<close>

lemma UpdateSectionInfo_bounds:
  assumes "AllocatorFileIo_UpdateSectionInfo ss off = (secs, fs)"
  shows "length secs = length ss \<and> off \<le> fs \<and>
    (\<forall>s\<in>set secs. off \<le> secOffset s \<and> secOffset s + secSize s \<le> fs)"
  using assms
proof (induction ss off arbitrary: secs fs rule: AllocatorFileIo_UpdateSectionInfo.induct)
  case (2 a sz rest off)
  obtain secs' where s: "AllocatorFileIo_UpdateSectionInfo rest (off + sz) = (secs', fs)"
    and eq: "secs = \<lparr>hasAddr = a, secSize = sz, secOffset = off\<rparr> # secs'"
    using "2.prems" by (auto split: prod.splits)
  from "2.IH" [OF s] show ?case by (fastforce simp: eq)
qed simp

text \<open>A copy of the later sections changes nothing before their first offset.\<close>

lemma CopySectionData_total:
  assumes "AllocatorFileIo_UpdateSectionInfo ss off = (secs, fs)" "length mem = length ss"
    "\<forall>i<length ss. fst (ss ! i) \<longrightarrow> length (mem ! i) = snd (ss ! i)" "length buf = fs"
  shows "\<exists>buf'. AllocatorFileIo_CopySectionData secs mem buf = Inr buf' \<and> length buf' = fs \<and>
    take off buf' = take off buf"
  using assms
proof (induction ss off arbitrary: secs fs mem buf rule: AllocatorFileIo_UpdateSectionInfo.induct)
  case (2 a sz rest off)
  obtain secs' where s: "AllocatorFileIo_UpdateSectionInfo rest (off + sz) = (secs', fs)"
    and eq: "secs = \<lparr>hasAddr = a, secSize = sz, secOffset = off\<rparr> # secs'"
    using "2.prems"(1) by (auto split: prod.splits)
  obtain m ms where m: "mem = m # ms" using "2.prems"(2) by (cases mem) auto
  have fs: "off + sz \<le> fs" using UpdateSectionInfo_bounds [OF s] by simp
  let ?b = "if a then take off buf @ take sz m @ drop (off + sz) buf else buf"
  have lm: "a \<Longrightarrow> length m = sz" using "2.prems"(3) m by (auto dest: spec [of _ 0])
  have step: "AllocatorFileIo_CopySectionData secs mem buf = AllocatorFileIo_CopySectionData secs' ms ?b"
    using fs lm "2.prems"(4) by (simp add: eq m memcpy_def)
  have len: "length ?b = fs" "take off ?b = take off buf" using fs lm "2.prems"(4) by auto
  have rest: "\<forall>i<length rest. fst (rest ! i) \<longrightarrow> length (ms ! i) = snd (rest ! i)"
    using "2.prems"(3) m by (auto dest: spec [of _ "Suc _"])
  obtain b' where b': "AllocatorFileIo_CopySectionData secs' ms ?b = Inr b'" "length b' = fs"
    "take (off + sz) b' = take (off + sz) ?b"
    using "2.IH" [OF s _ rest len(1)] "2.prems"(2) m by auto
  from b'(3) have "take off b' = take off ?b" by (metis le_add1 min.absorb1 take_take)
  with b' step len(2) show ?case by simp
qed simp

definition storedSections :: "(bool \<times> nat) list \<Rightarrow> 'b list list \<Rightarrow> 'b list list \<Rightarrow> 'b list list" where
  "storedSections ss mem mem0 = map (\<lambda>i. if fst (ss ! i) then mem ! i else mem0 ! i) [0..<length ss]"

lemma storedSections_Cons:
  "storedSections (s # ss) (m # mem) (m0 # mem0) = (if fst s then m else m0) # storedSections ss mem mem0"
  unfolding storedSections_def by (simp add: upt_conv_Cons map_Suc_upt [symmetric] comp_def del: upt_Suc)

definition fitsSections :: "(bool \<times> nat) list \<Rightarrow> 'b list list \<Rightarrow> bool" where
  "fitsSections ss mem \<longleftrightarrow> length mem = length ss \<and>
     (\<forall>i<length ss. fst (ss ! i) \<longrightarrow> length (mem ! i) = snd (ss ! i))"

lemma fitsSections_Cons:
  "fitsSections ((a, sz) # ss) mem \<longleftrightarrow>
     (\<exists>m ms. mem = m # ms \<and> (a \<longrightarrow> length m = sz) \<and> fitsSections ss ms)"
  by (cases mem) (auto simp: fitsSections_def nth_Cons split: nat.splits)

lemma Load_Copy:
  assumes "AllocatorFileIo_UpdateSectionInfo ss off = (secs, fs)" "fitsSections ss mem" "fitsSections ss mem0"
    "length buf = fs" "AllocatorFileIo_CopySectionData secs mem buf = Inr buf'"
  shows "AllocatorFileIo_LoadSectionData secs buf' mem0 = Inr (storedSections ss mem mem0)"
  using assms
proof (induction ss off arbitrary: secs fs mem mem0 buf rule: AllocatorFileIo_UpdateSectionInfo.induct)
  case (1 off)
  then show ?case by (cases mem0) (simp_all add: fitsSections_def storedSections_def)
next
  case (2 a sz rest off)
  obtain secs' where s: "AllocatorFileIo_UpdateSectionInfo rest (off + sz) = (secs', fs)"
    and eq: "secs = \<lparr>hasAddr = a, secSize = sz, secOffset = off\<rparr> # secs'"
    using "2.prems"(1) by (auto split: prod.splits)
  obtain m ms m0 ms0 where m: "mem = m # ms" "a \<longrightarrow> length m = sz" "fitsSections rest ms"
    and m0: "mem0 = m0 # ms0" "a \<longrightarrow> length m0 = sz" "fitsSections rest ms0"
    using "2.prems"(2,3) unfolding fitsSections_Cons by blast
  have fs: "off + sz \<le> fs" using UpdateSectionInfo_bounds [OF s] by simp
  let ?b = "if a then take off buf @ take sz m @ drop (off + sz) buf else buf"
  have rest: "AllocatorFileIo_CopySectionData secs' ms ?b = Inr buf'"
    using fs m "2.prems"(4,5) by (simp add: eq memcpy_def split: if_splits)
  have len: "length ?b = fs" using fs m(2) "2.prems"(4) by auto
  have kept: "length buf' = fs" "take (off + sz) buf' = take (off + sz) ?b"
    using CopySectionData_total [OF s _ _ len, of ms] m(3) rest by (auto simp: fitsSections_def)
  have "take sz (drop off buf') = m" if a
  proof -
    have "take sz (drop off buf') = drop off (take (off + sz) buf')" by (simp add: drop_take)
    also have "\<dots> = m" using kept(2) that fs m(2) "2.prems"(4) by simp
    finally show ?thesis .
  qed
  then have "memcpy m0 0 (drop off buf') sz = Inr m" if a
    using that fs kept(1) m0(2) by (simp add: memcpy_def)
  moreover have "AllocatorFileIo_LoadSectionData secs' buf' ms0 = Inr (storedSections rest ms ms0)"
    using "2.IH" [OF s m(3) m0(3) len rest] .
  ultimately show ?case by (simp add: eq m(1) m0(1) storedSections_Cons)
qed

section \<open>The counters of requests under way\<close>

definition fileIo_inv :: "'buf FileIo \<Rightarrow> bool" where
  "fileIo_inv f \<longleftrightarrow> numFilesReading f = int (reading f) \<and> numFilesFlushing f = int (length (flushing f))"

lemma fileIo_inv_steps [pos_inv]:
  assumes "fileIo_inv f"
  shows "fileIo_inv (snd (AllocatorFileIo_Load e c r f))"
    and "fileIo_inv (snd (AllocatorFileIo_Flush r buf f))"
    and "0 < reading f \<Longrightarrow> \<exists>f'. AllocatorFileIo_LoadCompletedThenCB s s f = Inr f' \<and> fileIo_inv f'"
    and "i < length (flushing f) \<Longrightarrow>
      \<exists>f'. AllocatorFileIo_FlushCompletedThenCB i s s f = Inr f' \<and> fileIo_inv f'"
  using assms
  by (auto simp: fileIo_inv_def AllocatorFileIo_Load_def AllocatorFileIo_Flush_def Let_def
      AllocatorFileIo_LoadCompletedThenCB_def AllocatorFileIo_FlushCompletedThenCB_def
      assertion_def)

section \<open>Properties\<close>



end
