(* ===== verification/RebuildCtx.thy ===== *)
theory RebuildCtx
  imports AllocatorFileIo AddressTypes
begin

text \<open>
  The persistent list of segments to rebuild (\<^verbatim>\<open>src/allocator/context_manager/rebuild_ctx/rebuild_ctx.cpp\<close>).
  The list is an array of one entry per segment of the user area; \<open>listSize\<close> entries are valid. Every
  change is written to the file as the header followed by the array.
\<close>

section \<open>State\<close>

abbreviation (input) SIG_REBUILD_CTX :: nat where
  "SIG_REBUILD_CTX \<equiv> 0xCFCFCFCF"

type_synonym RebuildBuf = "RebuildCtxHeader \<times> nat list"

record RebuildCtx =
  rebuildHeader :: RebuildCtxHeader
  rebuildStoredVersion :: uint64
  rebuildDirtyVersion :: uint64
  listSize :: nat
  segmentArray :: "nat list"
  rebuildFile :: "RebuildBuf FileIo"
  rebuildInitialized :: bool

section \<open>Operations\<close>

definition RebuildCtx_new :: "RebuildCtx" where
  "RebuildCtx_new =
     \<lparr>rebuildHeader = \<lparr>sig = SIG_REBUILD_CTX, ctxVersion = 0, numTargetSegments = 0\<rparr>,
      rebuildStoredVersion = 0, rebuildDirtyVersion = 0, listSize = 0, segmentArray = [],
      rebuildFile = \<lparr>fileOpened = False, numFilesReading = 0, numFilesFlushing = 0, reading = 0, flushing = []\<rparr>,
      rebuildInitialized = False\<rparr>"

definition RebuildCtx_Init :: "nat \<Rightarrow> RebuildCtx \<Rightarrow> RebuildCtx" where
  "RebuildCtx_Init numSegs rc =
     (if rebuildInitialized rc then rc
      else rc\<lparr>listSize := 0, segmentArray := replicate numSegs 0,
              rebuildHeader := (rebuildHeader rc)\<lparr>ctxVersion := 0\<rparr>,
              rebuildStoredVersion := 0, rebuildDirtyVersion := 0, rebuildInitialized := True\<rparr>)"

definition RebuildCtx_Dispose :: "RebuildCtx \<Rightarrow> RebuildCtx" where
  "RebuildCtx_Dispose rc =
     (if \<not> rebuildInitialized rc then rc else rc\<lparr>segmentArray := [], rebuildInitialized := False\<rparr>)"

text \<open>\<open>AfterLoad\<close> runs when the sections of the loaded file have been copied to the header and the array.\<close>

definition RebuildCtx_AfterLoad :: "RebuildBuf \<Rightarrow> RebuildCtx \<Rightarrow> RebuildCtx" where
  "RebuildCtx_AfterLoad buf rc =
     (let h = fst buf
      in rc\<lparr>rebuildHeader := h, segmentArray := snd buf, rebuildStoredVersion := ctxVersion h,
            rebuildDirtyVersion := ctxVersion h + 1, listSize := unat (numTargetSegments h)\<rparr>)"

text \<open>The buffer is zeroed, then the header and the valid entries are copied into it.\<close>

definition RebuildCtx_BeforeFlush :: "RebuildCtx \<Rightarrow> (RebuildBuf \<times> RebuildCtx) result" where
  "RebuildCtx_BeforeFlush rc =
     (let h = (rebuildHeader rc)\<lparr>ctxVersion := rebuildDirtyVersion rc, numTargetSegments := of_nat (listSize rc)\<rparr>
      in if listSize rc \<le> length (segmentArray rc)
         then Inr ((h, take (listSize rc) (segmentArray rc) @ replicate (length (segmentArray rc) - listSize rc) 0),
                   rc\<lparr>rebuildHeader := h, rebuildDirtyVersion := rebuildDirtyVersion rc + 1\<rparr>)
         else Inl OutOfBounds)"

definition RebuildCtx_FinalizeIo :: "RebuildBuf \<Rightarrow> RebuildCtx \<Rightarrow> RebuildCtx" where
  "RebuildCtx_FinalizeIo buf rc = rc\<lparr>rebuildStoredVersion := ctxVersion (fst buf)\<rparr>"

definition RebuildCtx_ResetDirtyVersion :: "RebuildCtx \<Rightarrow> RebuildCtx" where
  "RebuildCtx_ResetDirtyVersion rc = rc\<lparr>rebuildDirtyVersion := 0\<rparr>"

text \<open>\<open>io\<close> is what the metadata file answers to the write request, which may depend on the whole state.\<close>

definition RebuildCtx_FlushContext :: "(RebuildCtx \<Rightarrow> int) \<Rightarrow> RebuildCtx \<Rightarrow> (int \<times> RebuildCtx) result" where
  "RebuildCtx_FlushContext io rc =
     andThen (RebuildCtx_BeforeFlush rc) (\<lambda>(buf, rc1).
       let (ret, f) = AllocatorFileIo_Flush (io rc) buf (rebuildFile rc1)
       in Inr (ret, rc1\<lparr>rebuildFile := f\<rparr>))"

fun storeFrom :: "nat \<Rightarrow> nat list \<Rightarrow> nat list \<Rightarrow> nat list result" where
  "storeFrom idx [] arr = Inr arr"
| "storeFrom idx (x # xs) arr =
     (if idx < length arr then storeFrom (Suc idx) xs (arr[idx := x]) else Inl OutOfBounds)"

definition RebuildCtx_UpdateRebuildList :: "nat set \<Rightarrow> RebuildCtx \<Rightarrow> RebuildCtx result" where
  "RebuildCtx_UpdateRebuildList segIdSet rc =
     andThen (storeFrom 0 (sorted_list_of_set segIdSet) (segmentArray rc)) (\<lambda>arr.
       Inr (rc\<lparr>listSize := u32 (card segIdSet), segmentArray := arr\<rparr>))"

definition RebuildCtx_FlushRebuildSegmentList ::
    "(RebuildCtx \<Rightarrow> int) \<Rightarrow> nat set \<Rightarrow> RebuildCtx \<Rightarrow> (int \<times> RebuildCtx) result" where
  "RebuildCtx_FlushRebuildSegmentList io segIdSet rc =
     andThen (RebuildCtx_UpdateRebuildList segIdSet rc) (RebuildCtx_FlushContext io)"

definition RebuildCtx_GetList :: "RebuildCtx \<Rightarrow> nat set result" where
  "RebuildCtx_GetList rc =
     fold (\<lambda>idx r. andThen r (\<lambda>ret.
         if idx < length (segmentArray rc) then Inr (insert (segmentArray rc ! idx) ret) else Inl OutOfBounds))
       [0..<listSize rc] (Inr {})"

lemmas rebuild_ctx_defs [pos_defs] =
  RebuildCtx_new_def RebuildCtx_Init_def RebuildCtx_AfterLoad_def RebuildCtx_BeforeFlush_def
  RebuildCtx_FinalizeIo_def RebuildCtx_FlushContext_def RebuildCtx_UpdateRebuildList_def
  RebuildCtx_FlushRebuildSegmentList_def AllocatorFileIo_Flush_def

section \<open>What a flush of the list does\<close>

lemma storeFrom_eq:
  "idx + length xs \<le> length arr \<Longrightarrow>
   storeFrom idx xs arr = Inr (take idx arr @ xs @ drop (idx + length xs) arr)"
proof (induction xs arbitrary: idx arr)
  case (Cons x xs)
  then have "take (Suc idx) (arr[idx := x]) = take idx arr @ [x]"
    by (simp add: take_Suc_conv_app_nth)
  with Cons show ?case by simp
qed simp

lemma GetList_eq:
  assumes "listSize rc \<le> length (segmentArray rc)"
  shows "RebuildCtx_GetList rc = Inr (set (take (listSize rc) (segmentArray rc)))"
proof -
  have "n \<le> length (segmentArray rc) \<Longrightarrow>
      fold (\<lambda>idx r. andThen r (\<lambda>ret.
         if idx < length (segmentArray rc) then Inr (insert (segmentArray rc ! idx) ret) else Inl OutOfBounds))
       [0..<n] (Inr {}) = Inr (set (take n (segmentArray rc)))" for n
    by (induction n) (simp_all add: take_Suc_conv_app_nth)
  then show ?thesis using assms by (simp add: RebuildCtx_GetList_def)
qed

text \<open>The array is as long as the user area and the valid entries fit into it.\<close>

definition rebuild_ok :: "nat \<Rightarrow> RebuildCtx \<Rightarrow> bool" where
  "rebuild_ok n rc \<longleftrightarrow> length (segmentArray rc) = n \<and> listSize rc \<le> n \<and> n < 2 ^ 32 \<and> fileIo_inv (rebuildFile rc)"

text \<open>The state after the list is stored in the array, and the request made from it.\<close>

definition withList :: "nat set \<Rightarrow> RebuildCtx \<Rightarrow> RebuildCtx" where
  "withList S rc =
     rc\<lparr>listSize := card S, segmentArray := sorted_list_of_set S @ drop (card S) (segmentArray rc)\<rparr>"

definition listRequest :: "nat set \<Rightarrow> RebuildCtx \<Rightarrow> RebuildBuf" where
  "listRequest S rc =
     ((rebuildHeader rc)\<lparr>ctxVersion := rebuildDirtyVersion rc, numTargetSegments := of_nat (card S)\<rparr>,
      sorted_list_of_set S @ replicate (length (segmentArray rc) - card S) 0)"

lemma FlushRebuildSegmentList_eq:
  assumes ok: "rebuild_ok n rc" and sub: "S \<subseteq> {..<n}"
  shows "RebuildCtx_FlushRebuildSegmentList io S rc =
    Inr (if io (withList S rc) = 0 then 0 else - 1,
         (withList S rc)\<lparr>rebuildHeader := fst (listRequest S rc), rebuildDirtyVersion := rebuildDirtyVersion rc + 1,
            rebuildFile := snd (AllocatorFileIo_Flush (io (withList S rc)) (listRequest S rc) (rebuildFile rc))\<rparr>)"
proof -
  have card: "card S \<le> n" using card_bounded [OF sub] .
  have len: "length (segmentArray rc) = n" "n < 2 ^ 32" using ok by (simp_all add: rebuild_ok_def)
  have "storeFrom 0 (sorted_list_of_set S) (segmentArray rc) = Inr (segmentArray (withList S rc))"
    using storeFrom_eq [of 0 "sorted_list_of_set S" "segmentArray rc"] len card by (simp add: withList_def)
  moreover have "u32 (card S) = card S" using len card by simp
  ultimately have u: "RebuildCtx_UpdateRebuildList S rc = Inr (withList S rc)"
    by (simp add: RebuildCtx_UpdateRebuildList_def withList_def)
  have "RebuildCtx_BeforeFlush (withList S rc) = Inr (listRequest S rc,
      (withList S rc)\<lparr>rebuildHeader := fst (listRequest S rc), rebuildDirtyVersion := rebuildDirtyVersion rc + 1\<rparr>)"
    using len card by (simp add: RebuildCtx_BeforeFlush_def withList_def listRequest_def Let_def)
  then show ?thesis
    by (simp add: RebuildCtx_FlushRebuildSegmentList_def u RebuildCtx_FlushContext_def Let_def case_prod_beta)
      (simp add: AllocatorFileIo_Flush_def withList_def)
qed

lemma FlushRebuildSegmentList_ok:
  assumes ok: "rebuild_ok n rc" and sub: "S \<subseteq> {..<n}"
  obtains rc' where "RebuildCtx_FlushRebuildSegmentList io S rc = Inr (if io (withList S rc) = 0 then 0 else - 1, rc')"
    "rebuild_ok n rc'" "RebuildCtx_GetList rc' = Inr S"
proof -
  let ?f = "snd (AllocatorFileIo_Flush (io (withList S rc)) (listRequest S rc) (rebuildFile rc))"
  let ?r = "(withList S rc)\<lparr>rebuildHeader := fst (listRequest S rc), rebuildDirtyVersion := rebuildDirtyVersion rc + 1,
      rebuildFile := ?f\<rparr>"
  have fin: "finite S" using sub finite_subset by blast
  have card: "card S \<le> n" using card_bounded [OF sub] .
  have len: "length (segmentArray rc) = n" "n < 2 ^ 32" "fileIo_inv ?f"
    using ok fileIo_inv_steps(2) [of "rebuildFile rc"] by (simp_all add: rebuild_ok_def)
  have "rebuild_ok n ?r" using len card by (simp add: rebuild_ok_def withList_def)
  moreover have "RebuildCtx_GetList ?r = Inr S"
    using len card fin by (subst GetList_eq) (simp_all add: withList_def)
  ultimately show ?thesis using that FlushRebuildSegmentList_eq [OF assms] by blast
qed

lemma AfterLoad_listRequest:
  assumes ok: "rebuild_ok n rc" and sub: "S \<subseteq> {..<n}"
  shows "RebuildCtx_GetList (RebuildCtx_AfterLoad (listRequest S rc) rc0) = Inr S"
proof -
  have fin: "finite S" using sub finite_subset by blast
  have card: "card S \<le> n" using card_bounded [OF sub] .
  with ok have "unat (of_nat (card S) :: uint32) = card S"
    by (simp add: rebuild_ok_def unat_of_nat take_bit_nat_eq_self)
  then have "listSize (RebuildCtx_AfterLoad (listRequest S rc) rc0) = card S"
    by (simp add: RebuildCtx_AfterLoad_def listRequest_def Let_def)
  moreover have "segmentArray (RebuildCtx_AfterLoad (listRequest S rc) rc0) = snd (listRequest S rc)"
    by (simp add: RebuildCtx_AfterLoad_def Let_def)
  ultimately show ?thesis using fin by (subst GetList_eq) (simp_all add: listRequest_def)
qed

lemma rebuild_ok_Init: "n < 2 ^ 32 \<Longrightarrow> rebuild_ok n (RebuildCtx_Init n RebuildCtx_new)"
  by (simp add: rebuild_ok_def RebuildCtx_Init_def RebuildCtx_new_def fileIo_inv_def)

section \<open>Properties\<close>



end
