(* ===== verification/SegmentCtx.thy ===== *)
theory SegmentCtx
  imports SegmentInfo SegmentList RebuildCtx
begin

text \<open>
  The segments of the user area (\<^verbatim>\<open>src/allocator/context_manager/segment_ctx/segment_ctx.cpp\<close>): their
  states and counts, the list of free segments, the list of segments to rebuild and the segment under
  rebuild. \<open>AllocateFreeSegment\<close> and \<open>GetRebuildTargetSegment\<close> are loops without a bound in the source, so
  they return an option: \<open>None\<close> is a call that does not return.
\<close>

section \<open>State\<close>

abbreviation (input) SIG_SEGMENT_CTX :: nat where
  "SIG_SEGMENT_CTX \<equiv> 0xAFAFAFAF"

record SegmentCtx =
  segHeader :: SegmentCtxHeader
  segDirtyVersion :: uint64
  segStoredVersion :: uint64
  segmentInfos :: "SegmentInfo list"
  freeList :: SegmentList
  rebuildList :: SegmentList
  rebuildingSegment :: nat
  segInitialized :: bool
  addrInfo :: AllocatorAddressInfo
  rebuildCtx :: RebuildCtx

abbreviation numSegs :: "SegmentCtx \<Rightarrow> nat" where
  "numSegs c \<equiv> numUserAreaSegments (addrInfo c)"

section \<open>Operations\<close>

text \<open>An access to \<open>segmentInfos[segId]\<close>, and the call of one of its operations.\<close>

definition onInfo :: "nat \<Rightarrow> (SegmentInfo \<Rightarrow> ('a \<times> SegmentInfo) result) \<Rightarrow> SegmentCtx \<Rightarrow> ('a \<times> SegmentCtx) result" where
  "onInfo segId f c =
     (if segId < length (segmentInfos c)
      then andThen (f (segmentInfos c ! segId)) (\<lambda>(a, si). Inr (a, c\<lparr>segmentInfos := (segmentInfos c)[segId := si]\<rparr>))
      else Inl OutOfBounds)"

definition SegmentCtx_new :: "RebuildCtx \<Rightarrow> AllocatorAddressInfo \<Rightarrow> SegmentCtx" where
  "SegmentCtx_new rc info =
     \<lparr>segHeader = \<lparr>sig = SIG_SEGMENT_CTX, ctxVersion = 0, numValidSegment = 0\<rparr>,
      segDirtyVersion = 0, segStoredVersion = 0, segmentInfos = [],
      freeList = SegmentList_new, rebuildList = SegmentList_new, rebuildingSegment = UNMAP_SEGMENT,
      segInitialized = False, addrInfo = info, rebuildCtx = rc\<rparr>"

definition SegmentCtx_RebuildFreeSegmentList :: "SegmentCtx \<Rightarrow> SegmentCtx result" where
  "SegmentCtx_RebuildFreeSegmentList c =
     fold (\<lambda>segId r. andThen r (\<lambda>c.
         if segId < length (segmentInfos c)
         then Inr (if state (segmentInfos c ! segId) = FREE
                   then c\<lparr>freeList := SegmentList_AddToList segId (freeList c)\<rparr> else c)
         else Inl OutOfBounds))
       [0..<numSegs c] (Inr (c\<lparr>freeList := SegmentList_Reset (freeList c)\<rparr>))"

definition SegmentCtx_Init :: "SegmentCtx \<Rightarrow> SegmentCtx result" where
  "SegmentCtx_Init c =
     (if segInitialized c then Inr c
      else andThen (SegmentCtx_RebuildFreeSegmentList
             (c\<lparr>segHeader := (segHeader c)\<lparr>ctxVersion := 0\<rparr>, segStoredVersion := 0, segDirtyVersion := 0,
                segmentInfos := replicate (numSegs c) SegmentInfo_new\<rparr>))
           (\<lambda>c. Inr (c\<lparr>segInitialized := True\<rparr>)))"

definition SegmentCtx_Dispose :: "SegmentCtx \<Rightarrow> SegmentCtx" where
  "SegmentCtx_Dispose c =
     (if \<not> segInitialized c then c
      else c\<lparr>segmentInfos := [], freeList := SegmentList_new, rebuildList := SegmentList_new, segInitialized := False\<rparr>)"

definition SegmentCtx_SegmentFreed :: "(RebuildCtx \<Rightarrow> int) \<Rightarrow> nat \<Rightarrow> SegmentCtx \<Rightarrow> SegmentCtx result" where
  "SegmentCtx_SegmentFreed io segmentId c =
     (if rebuildingSegment c = segmentId then Inr c
      else let (rebuildListChanged, rl) = SegmentList_RemoveFromList segmentId (rebuildList c);
               c1 = c\<lparr>rebuildList := rl\<rparr>
           in andThen (if rebuildListChanged
                  then andThen (RebuildCtx_FlushRebuildSegmentList io (SegmentList_GetList rl) (rebuildCtx c1))
                         (\<lambda>(ret, rc). Inr (c1\<lparr>rebuildCtx := rc\<rparr>))
                  else Inr c1)
                (\<lambda>c2. Inr (c2\<lparr>freeList := SegmentList_AddToList segmentId (freeList c2)\<rparr>)))"

definition SegmentCtx_IncreaseValidBlockCount :: "nat \<Rightarrow> uint32 \<Rightarrow> SegmentCtx \<Rightarrow> SegmentCtx result" where
  "SegmentCtx_IncreaseValidBlockCount segId cnt c =
     andThen (onInfo segId (\<lambda>si. Inr (SegmentInfo_IncreaseValidBlockCount cnt si)) c) (\<lambda>(increasedValue, c1).
       if unat increasedValue > blksPerSegment (addrInfo c1) then Inl AssertFailed else Inr c1)"

definition SegmentCtx_DecreaseValidBlockCount ::
    "(RebuildCtx \<Rightarrow> int) \<Rightarrow> nat \<Rightarrow> uint32 \<Rightarrow> SegmentCtx \<Rightarrow> (bool \<times> SegmentCtx) result" where
  "SegmentCtx_DecreaseValidBlockCount io segId cnt c =
     andThen (onInfo segId (SegmentInfo_DecreaseValidBlockCount cnt) c) (\<lambda>(segmentFreed, c1).
       if segmentFreed then andThen (SegmentCtx_SegmentFreed io segId c1) (\<lambda>c2. Inr (True, c2))
       else Inr (False, c1))"

definition SegmentCtx_IncreaseOccupiedStripeCount ::
    "(RebuildCtx \<Rightarrow> int) \<Rightarrow> nat \<Rightarrow> SegmentCtx \<Rightarrow> (bool \<times> SegmentCtx) result" where
  "SegmentCtx_IncreaseOccupiedStripeCount io segId c =
     andThen (onInfo segId (\<lambda>si. Inr (SegmentInfo_IncreaseOccupiedStripeCount si)) c) (\<lambda>(cnt, c1).
       if unat cnt = stripesPerSegment (addrInfo c1)
       then andThen (onInfo segId SegmentInfo_MoveToSsdStateOrFreeStateIfItBecomesEmpty c1) (\<lambda>(segmentFreed, c2).
              if segmentFreed then andThen (SegmentCtx_SegmentFreed io segId c2) (\<lambda>c3. Inr (True, c3))
              else Inr (False, c2))
       else Inr (False, c1))"

text \<open>\<open>AfterLoad\<close> runs when the header and the infos have been copied from the file; \<open>BeforeFlush\<close> takes a version.\<close>

definition SegmentCtx_AfterLoad :: "SegmentCtxHeader \<Rightarrow> SegmentInfo list \<Rightarrow> SegmentCtx \<Rightarrow> SegmentCtx result" where
  "SegmentCtx_AfterLoad h infos c =
     SegmentCtx_RebuildFreeSegmentList
       (c\<lparr>segHeader := h, segmentInfos := infos, segStoredVersion := ctxVersion h,
          segDirtyVersion := ctxVersion h + 1\<rparr>)"

definition SegmentCtx_BeforeFlush :: "SegmentCtx \<Rightarrow> SegmentCtx" where
  "SegmentCtx_BeforeFlush c =
     c\<lparr>segHeader := (segHeader c)\<lparr>ctxVersion := segDirtyVersion c\<rparr>, segDirtyVersion := segDirtyVersion c + 1\<rparr>"

definition SegmentCtx_FinalizeIo :: "SegmentCtxHeader \<Rightarrow> SegmentCtx \<Rightarrow> SegmentCtx" where
  "SegmentCtx_FinalizeIo h c = c\<lparr>segStoredVersion := ctxVersion h\<rparr>"

definition SegmentCtx_ResetDirtyVersion :: "SegmentCtx \<Rightarrow> SegmentCtx" where
  "SegmentCtx_ResetDirtyVersion c = c\<lparr>segDirtyVersion := 0\<rparr>"

definition SegmentCtx_AllocateSegment :: "nat \<Rightarrow> SegmentCtx \<Rightarrow> SegmentCtx result" where
  "SegmentCtx_AllocateSegment segId c =
     andThen (onInfo segId (\<lambda>si. andThen (SegmentInfo_MoveToNvramState si) (\<lambda>si. Inr ((), si))) c) (\<lambda>(_, c). Inr c)"

partial_function (option) SegmentCtx_AllocateFreeSegment :: "SegmentCtx \<Rightarrow> (nat \<times> SegmentCtx) result option" where
  "SegmentCtx_AllocateFreeSegment c =
     (let (segId, fl) = SegmentList_PopSegment (freeList c); c1 = c\<lparr>freeList := fl\<rparr>
      in if segId = UNMAP_SEGMENT then Some (Inr (UNMAP_SEGMENT, c1))
         else if SegmentList_Contains segId (rebuildList c1)
         then SegmentCtx_AllocateFreeSegment (c1\<lparr>freeList := SegmentList_AddToList segId fl\<rparr>)
         else Some (andThen (SegmentCtx_AllocateSegment segId c1) (\<lambda>c2. Inr (segId, c2))))"

definition SegmentCtx_GetNumOfFreeSegment :: "SegmentCtx \<Rightarrow> uint32" where
  "SegmentCtx_GetNumOfFreeSegment c = SegmentList_GetNumSegments (freeList c)"

definition SegmentCtx_GetAllocatedSegmentCount :: "SegmentCtx \<Rightarrow> uint32" where
  "SegmentCtx_GetAllocatedSegmentCount c = of_nat (numSegs c) - SegmentList_GetNumSegments (freeList c)"

definition SegmentCtx_FindMostInvalidSSDSegment :: "SegmentCtx \<Rightarrow> nat result" where
  "SegmentCtx_FindMostInvalidSSDSegment c =
     andThen (fold (\<lambda>segId r. andThen r (\<lambda>(victimSegment, minValidCount).
         if segId < length (segmentInfos c)
         then let cnt = unat (SegmentInfo_GetValidBlockCountIfSsdState (segmentInfos c ! segId))
              in Inr (if cnt < minValidCount then (segId, cnt) else (victimSegment, minValidCount))
         else Inl OutOfBounds))
       [0..<numSegs c] (Inr (UNMAP_SEGMENT, blksPerSegment (addrInfo c))))
     (\<lambda>(victimSegment, _). Inr victimSegment)"

definition SegmentCtx_AllocateGCVictimSegment :: "SegmentCtx \<Rightarrow> (nat \<times> SegmentCtx) result" where
  "SegmentCtx_AllocateGCVictimSegment c =
     andThen (SegmentCtx_FindMostInvalidSSDSegment c) (\<lambda>victimSegment.
       if victimSegment \<noteq> UNMAP_SEGMENT
       then andThen (onInfo victimSegment
              (\<lambda>si. andThen (SegmentInfo_MoveToVictimState si) (\<lambda>si. Inr ((), si))) c) (\<lambda>(_, c). Inr (victimSegment, c))
       else Inr (victimSegment, c))"

definition SegmentCtx_ResetSegmentsStates :: "SegmentCtx \<Rightarrow> SegmentCtx result" where
  "SegmentCtx_ResetSegmentsStates c =
     andThen (fold (\<lambda>segId r. andThen r (\<lambda>c.
         if segId < length (segmentInfos c)
         then if state (segmentInfos c ! segId) = VICTIM \<or> state (segmentInfos c ! segId) = SSD
              then andThen (onInfo segId SegmentInfo_MoveToSsdStateOrFreeStateIfItBecomesEmpty c) (\<lambda>(_, c). Inr c)
              else Inr c
         else Inl OutOfBounds))
       [0..<numSegs c] (Inr c))
     SegmentCtx_RebuildFreeSegmentList"

partial_function (option) SegmentCtx_GetRebuildTargetSegment ::
    "(RebuildCtx \<Rightarrow> int) \<Rightarrow> SegmentCtx \<Rightarrow> (nat \<times> SegmentCtx) result option" where
  "SegmentCtx_GetRebuildTargetSegment io c =
     (let segmentId = SegmentList_GetFrontSegment (rebuildList c)
      in if segmentId = UNMAP_SEGMENT then Some (Inr (UNMAP_SEGMENT, c))
         else if \<not> segmentId < length (segmentInfos c) then Some (Inl OutOfBounds)
         else if state (segmentInfos c ! segmentId) = FREE
         then let c1 = c\<lparr>rebuildList := snd (SegmentList_RemoveFromList segmentId (rebuildList c))\<rparr>
              in case RebuildCtx_FlushRebuildSegmentList io (SegmentList_GetList (rebuildList c1)) (rebuildCtx c1) of
                   Inl e \<Rightarrow> Some (Inl e)
                 | Inr p \<Rightarrow> SegmentCtx_GetRebuildTargetSegment io (c1\<lparr>rebuildCtx := snd p\<rparr>)
         else Some (Inr (segmentId, c\<lparr>rebuildingSegment := segmentId\<rparr>)))"

definition SegmentCtx_ResetSegmentIdInRebuilding :: "SegmentCtx \<Rightarrow> SegmentCtx" where
  "SegmentCtx_ResetSegmentIdInRebuilding c = c\<lparr>rebuildingSegment := UNMAP_SEGMENT\<rparr>"

definition SegmentCtx_SetRebuildCompleted ::
    "(RebuildCtx \<Rightarrow> int) \<Rightarrow> nat \<Rightarrow> SegmentCtx \<Rightarrow> (int \<times> SegmentCtx) result" where
  "SegmentCtx_SetRebuildCompleted io segId c =
     (let c1 = SegmentCtx_ResetSegmentIdInRebuilding c;
          (removed, rl) = SegmentList_RemoveFromList segId (rebuildList c1);
          c2 = c1\<lparr>rebuildList := rl\<rparr>
      in if removed
         then andThen (RebuildCtx_FlushRebuildSegmentList io (SegmentList_GetList rl) (rebuildCtx c2)) (\<lambda>(ret, rc).
                let c3 = c2\<lparr>rebuildCtx := rc\<rparr>
                in if segId < length (segmentInfos c3)
                   then Inr (ret, if state (segmentInfos c3 ! segId) = FREE
                                  then c3\<lparr>freeList := SegmentList_AddToList segId (freeList c3)\<rparr> else c3)
                   else Inl OutOfBounds)
         else Inr (0, c2))"

definition SegmentCtx_BuildRebuildSegmentList :: "SegmentCtx \<Rightarrow> SegmentCtx result" where
  "SegmentCtx_BuildRebuildSegmentList c =
     andThen (fold (\<lambda>segId r. andThen r (\<lambda>c.
         if segId < length (segmentInfos c)
         then Inr (if state (segmentInfos c ! segId) \<noteq> FREE
                   then c\<lparr>rebuildList := SegmentList_AddToList segId (rebuildList c)\<rparr> else c)
         else Inl OutOfBounds))
       [0..<numSegs c] (Inr c))
     (\<lambda>c. Inr (SegmentCtx_ResetSegmentIdInRebuilding c))"

definition SegmentCtx_MakeRebuildTarget ::
    "(RebuildCtx \<Rightarrow> int) \<Rightarrow> SegmentCtx \<Rightarrow> (int \<times> nat set \<times> SegmentCtx) result" where
  "SegmentCtx_MakeRebuildTarget io c =
     andThen (SegmentCtx_BuildRebuildSegmentList c) (\<lambda>c1.
       let segmentSet = SegmentList_GetList (rebuildList c1)
       in andThen (RebuildCtx_FlushRebuildSegmentList io segmentSet (rebuildCtx c1)) (\<lambda>(ret, rc).
            Inr (ret, segmentSet, c1\<lparr>rebuildCtx := rc\<rparr>)))"

definition SegmentCtx_StopRebuilding ::
    "(RebuildCtx \<Rightarrow> int) \<Rightarrow> SegmentCtx \<Rightarrow> (int \<times> SegmentCtx) result" where
  "SegmentCtx_StopRebuilding io c =
     (if SegmentList_GetNumSegments (rebuildList c) = 0 then Inr (- ALLOCATOR_REBUILD_TARGET_SET_EMPTY, c)
      else let c1 = SegmentCtx_ResetSegmentIdInRebuilding c
           in andThen (RebuildCtx_FlushRebuildSegmentList io (SegmentList_GetList (rebuildList c1)) (rebuildCtx c1))
                (\<lambda>(ret, rc). Inr (ret, c1\<lparr>rebuildCtx := rc\<rparr>)))"

definition SegmentCtx_GetRebuildTargetSegmentCount :: "SegmentCtx \<Rightarrow> uint32" where
  "SegmentCtx_GetRebuildTargetSegmentCount c = SegmentList_GetNumSegments (rebuildList c)"

definition SegmentCtx_LoadRebuildList :: "SegmentCtx \<Rightarrow> (bool \<times> SegmentCtx) result" where
  "SegmentCtx_LoadRebuildList c =
     andThen (RebuildCtx_GetList (rebuildCtx c)) (\<lambda>ls.
       let c1 = c\<lparr>rebuildList := SegmentList_SetList ls (rebuildList c)\<rparr>
       in Inr (SegmentList_GetNumSegments (rebuildList c1) \<noteq> 0, c1))"

datatype WBTCount = WBT_SEGMENT_VALID_COUNT | WBT_SEGMENT_OCCUPIED_STRIPE

definition SegmentCtx_CopySegmentInfoToBufferforWBT :: "WBTCount \<Rightarrow> SegmentCtx \<Rightarrow> uint32 list result" where
  "SegmentCtx_CopySegmentInfoToBufferforWBT type c =
     (if numSegs c \<le> length (segmentInfos c)
      then Inr (map (\<lambda>segId. if type = WBT_SEGMENT_VALID_COUNT then validBlockCount (segmentInfos c ! segId)
                             else occupiedStripeCount (segmentInfos c ! segId)) [0..<numSegs c])
      else Inl OutOfBounds)"

definition SegmentCtx_CopySegmentInfoFromBufferforWBT :: "WBTCount \<Rightarrow> uint32 list \<Rightarrow> SegmentCtx \<Rightarrow> SegmentCtx result" where
  "SegmentCtx_CopySegmentInfoFromBufferforWBT type src c =
     fold (\<lambda>segId r. andThen r (\<lambda>c.
         if segId < length src
         then andThen (onInfo segId (\<lambda>si. Inr ((),
                  if type = WBT_SEGMENT_VALID_COUNT then SegmentInfo_SetValidBlockCount (sint (src ! segId)) si
                  else SegmentInfo_SetOccupiedStripeCount (src ! segId) si)) c) (\<lambda>(_, c). Inr c)
         else Inl OutOfBounds))
       [0..<numSegs c] (Inr c)"

section \<open>Loops over the segments\<close>

definition freeSegs :: "SegmentCtx \<Rightarrow> nat set" where
  "freeSegs c = {i. i < length (segmentInfos c) \<and> state (segmentInfos c ! i) = FREE}"

lemma freeSegs_bound: "freeSegs c \<subseteq> {..<length (segmentInfos c)}"
  by (auto simp: freeSegs_def)

lemma finite_freeSegs [simp]: "finite (freeSegs c)"
  using freeSegs_bound finite_subset by blast

lemma freeSegs_cong: "segmentInfos c' = segmentInfos c \<Longrightarrow> freeSegs c' = freeSegs c"
  by (simp add: freeSegs_def)

lemma freeSegs_update:
  assumes "s < length (segmentInfos c)"
  shows "freeSegs (c\<lparr>segmentInfos := (segmentInfos c)[s := si]\<rparr>) =
    (if state si = FREE then insert s (freeSegs c) else freeSegs c - {s})"
  using assms by (auto simp: freeSegs_def nth_list_update)

lemma RebuildFreeSegmentList_eq:
  assumes "numSegs c = length (segmentInfos c)"
  shows "SegmentCtx_RebuildFreeSegmentList c =
    Inr (c\<lparr>freeList := (freeList c)\<lparr>segments := freeSegs c, numSegments := of_nat (card (freeSegs c))\<rparr>\<rparr>)"
proof -
  let ?f = "\<lambda>segId r. andThen r (\<lambda>c.
         if segId < length (segmentInfos c)
         then Inr (if state (segmentInfos c ! segId) = FREE
                   then c\<lparr>freeList := SegmentList_AddToList segId (freeList c)\<rparr> else c)
         else Inl OutOfBounds)"
  let ?S = "\<lambda>n. {i. i < n \<and> state (segmentInfos c ! i) = FREE}"
  have step: "?S (Suc n) = (if state (segmentInfos c ! n) = FREE then insert n (?S n) else ?S n)" for n
    by (auto simp: less_Suc_eq)
  have "n \<le> length (segmentInfos c) \<Longrightarrow>
      fold ?f [0..<n] (Inr (c\<lparr>freeList := SegmentList_Reset (freeList c)\<rparr>)) =
      Inr (c\<lparr>freeList := (freeList c)\<lparr>segments := ?S n, numSegments := of_nat (card (?S n))\<rparr>\<rparr>)" for n
  proof (induction n)
    case 0
    then show ?case by (simp add: SegmentList_Reset_def)
  next
    case (Suc n)
    then show ?case unfolding step by (simp add: SegmentList_AddToList_def add.commute)
  qed
  from this [of "numSegs c"] show ?thesis
    using assms by (simp add: SegmentCtx_RebuildFreeSegmentList_def freeSegs_def)
qed

lemma BuildRebuildSegmentList_eq:
  assumes "numSegs c = length (segmentInfos c)"
  shows "\<exists>n. SegmentCtx_BuildRebuildSegmentList c =
    Inr (c\<lparr>rebuildList := (rebuildList c)\<lparr>segments := segments (rebuildList c) \<union> ({..<numSegs c} - freeSegs c),
            numSegments := n\<rparr>, rebuildingSegment := UNMAP_SEGMENT\<rparr>)"
proof -
  let ?f = "\<lambda>segId r. andThen r (\<lambda>c.
         if segId < length (segmentInfos c)
         then Inr (if state (segmentInfos c ! segId) \<noteq> FREE
                   then c\<lparr>rebuildList := SegmentList_AddToList segId (rebuildList c)\<rparr> else c)
         else Inl OutOfBounds)"
  let ?S = "\<lambda>n. segments (rebuildList c) \<union> {i. i < n \<and> state (segmentInfos c ! i) \<noteq> FREE}"
  have step: "?S (Suc n) = (if state (segmentInfos c ! n) \<noteq> FREE then insert n (?S n) else ?S n)" for n
    by (auto simp: less_Suc_eq)
  have "n \<le> length (segmentInfos c) \<Longrightarrow> \<exists>k. fold ?f [0..<n] (Inr c) =
      Inr (c\<lparr>rebuildList := (rebuildList c)\<lparr>segments := ?S n, numSegments := k\<rparr>\<rparr>)" for n
  proof (induction n)
    case 0
    then show ?case by (intro exI [of _ "numSegments (rebuildList c)"]) simp
  next
    case (Suc n)
    then obtain k where "fold ?f [0..<n] (Inr c) =
      Inr (c\<lparr>rebuildList := (rebuildList c)\<lparr>segments := ?S n, numSegments := k\<rparr>\<rparr>)" by auto
    with Suc.prems show ?case unfolding step
      by (intro exI [of _ "if state (segmentInfos c ! n) \<noteq> FREE then k + 1 else k"])
        (simp add: SegmentList_AddToList_def)
  qed
  moreover have "?S (numSegs c) = segments (rebuildList c) \<union> ({..<numSegs c} - freeSegs c)"
    using assms by (auto simp: freeSegs_def)
  ultimately show ?thesis
    using assms by (fastforce simp: SegmentCtx_BuildRebuildSegmentList_def SegmentCtx_ResetSegmentIdInRebuilding_def)
qed

section \<open>Selection of a victim\<close>

lemma FindMostInvalid_loop:
  assumes "n \<le> length infos"
  shows "\<exists>v m. fold (\<lambda>segId r. andThen r (\<lambda>(victimSegment, minValidCount).
         if segId < length infos
         then let cnt = unat (SegmentInfo_GetValidBlockCountIfSsdState (infos ! segId))
              in Inr (if cnt < minValidCount then (segId, cnt) else (victimSegment, minValidCount))
         else Inl OutOfBounds)) [0..<n] (Inr (UNMAP_SEGMENT, b)) = Inr (v, m) \<and>
     ((v = UNMAP_SEGMENT \<and> m = b \<and> (\<forall>j<n. b \<le> unat (SegmentInfo_GetValidBlockCountIfSsdState (infos ! j)))) \<or>
      (v < n \<and> m < b \<and> m = unat (SegmentInfo_GetValidBlockCountIfSsdState (infos ! v)) \<and>
       (\<forall>j<n. m \<le> unat (SegmentInfo_GetValidBlockCountIfSsdState (infos ! j))) \<and>
       (\<forall>j<v. m < unat (SegmentInfo_GetValidBlockCountIfSsdState (infos ! j)))))"
  using assms
proof (induction n)
  case (Suc n)
  let ?g = "\<lambda>j. unat (SegmentInfo_GetValidBlockCountIfSsdState (infos ! j))"
  let ?f = "\<lambda>segId r. andThen r (\<lambda>(victimSegment, minValidCount).
         if segId < length infos
         then let cnt = ?g segId
              in Inr (if cnt < minValidCount then (segId, cnt) else (victimSegment, minValidCount))
         else Inl OutOfBounds)"
  obtain v m where f: "fold ?f [0..<n] (Inr (UNMAP_SEGMENT, b)) = Inr (v, m)"
    and vm: "(v = UNMAP_SEGMENT \<and> m = b \<and> (\<forall>j<n. b \<le> ?g j)) \<or>
      (v < n \<and> m < b \<and> m = ?g v \<and> (\<forall>j<n. m \<le> ?g j) \<and> (\<forall>j<v. m < ?g j))"
    using Suc.IH Suc.prems by auto
  have eq: "fold ?f [0..<Suc n] (Inr (UNMAP_SEGMENT, b)) = Inr (if ?g n < m then (n, ?g n) else (v, m))"
    using f Suc.prems by (simp add: Let_def)
  show ?case
  proof (cases "?g n < m")
    case True
    then have "\<forall>j<n. ?g n < ?g j" using vm by auto
    moreover have "?g n < b" using True vm by auto
    ultimately show ?thesis unfolding eq using True by (auto simp: less_Suc_eq order_less_imp_le)
  next
    case False
    then show ?thesis unfolding eq using vm by (auto simp: less_Suc_eq)
  qed
qed simp

section \<open>Invariant\<close>

text \<open>
  The free list holds the segments in state \<open>FREE\<close> but for the one under rebuild, no segment to rebuild
  is free but for the one under rebuild, and a free segment has no block and no stripe.
\<close>

definition segctx_inv :: "SegmentCtx \<Rightarrow> bool" where
  "segctx_inv c \<longleftrightarrow> length (segmentInfos c) = numSegs c \<and> numSegs c < UNMAP_SEGMENT \<and>
     rebuild_ok (numSegs c) (rebuildCtx c) \<and>
     segments (freeList c) = freeSegs c - {rebuildingSegment c} \<and>
     segments (rebuildList c) \<subseteq> {..<numSegs c} \<and>
     segments (rebuildList c) \<inter> freeSegs c \<subseteq> {rebuildingSegment c} \<and>
     (rebuildingSegment c = UNMAP_SEGMENT \<or> rebuildingSegment c \<in> segments (rebuildList c)) \<and>
     (\<forall>i\<in>freeSegs c. segmentInfos c ! i = SegmentInfo_new)"

lemma inv_lengths:
  assumes "segctx_inv c"
  shows "length (segmentInfos c) = numSegs c" "numSegs c < UNMAP_SEGMENT" "rebuild_ok (numSegs c) (rebuildCtx c)"
    "segments (freeList c) = freeSegs c - {rebuildingSegment c}"
    "segments (rebuildList c) \<subseteq> {..<numSegs c}" "finite (segments (rebuildList c))"
    "segments (freeList c) \<subseteq> {..<UNMAP_SEGMENT}"
  using assms freeSegs_bound [of c] finite_subset [of "segments (rebuildList c)" "{..<numSegs c}"]
  by (auto simp: segctx_inv_def)

text \<open>A change of one segment that is not free and does not become free.\<close>

lemma inv_update_busy:
  assumes inv: "segctx_inv c" and s: "s < numSegs c" "s \<notin> freeSegs c" and si: "state si \<noteq> FREE"
  shows "segctx_inv (c\<lparr>segmentInfos := (segmentInfos c)[s := si]\<rparr>)"
proof -
  have "freeSegs (c\<lparr>segmentInfos := (segmentInfos c)[s := si]\<rparr>) = freeSegs c"
    using freeSegs_update [of s c si] s si inv_lengths(1) [OF inv] by simp
  moreover have "i \<in> freeSegs c \<Longrightarrow> s \<noteq> i" for i using s(2) by auto
  ultimately show ?thesis using inv by (simp add: segctx_inv_def)
qed

text \<open>A segment that becomes free, with the bookkeeping of \<open>_SegmentFreed\<close>.\<close>

lemma SegmentFreed_inv:
  assumes inv: "segctx_inv c" and s: "s < numSegs c" "s \<notin> freeSegs c"
  obtains c' where
    "SegmentCtx_SegmentFreed io s (c\<lparr>segmentInfos := (segmentInfos c)[s := SegmentInfo_new]\<rparr>) = Inr c'"
    "segctx_inv c'" "freeSegs c' = insert s (freeSegs c)"
proof -
  let ?c = "c\<lparr>segmentInfos := (segmentInfos c)[s := SegmentInfo_new]\<rparr>"
  note L = inv_lengths [OF inv]
  have fs: "freeSegs ?c = insert s (freeSegs c)"
    using freeSegs_update [of s c SegmentInfo_new] s L(1) by (simp add: SegmentInfo_new_def)
  have new: "\<forall>i\<in>freeSegs ?c. segmentInfos ?c ! i = SegmentInfo_new"
    using inv s L(1) unfolding fs by (auto simp: segctx_inv_def nth_list_update)
  have ne: "s \<noteq> UNMAP_SEGMENT" using s L(2) by simp
  show ?thesis
  proof (cases "rebuildingSegment c = s")
    case True
    then have "segctx_inv ?c" using inv new fs s ne by (auto simp: segctx_inv_def)
    moreover have "SegmentCtx_SegmentFreed io s ?c = Inr ?c" using True by (simp add: SegmentCtx_SegmentFreed_def)
    ultimately show ?thesis using that fs by blast
  next
    case False
    define rl where "rl = snd (SegmentList_RemoveFromList s (rebuildList c))"
    have rl: "segments rl = segments (rebuildList c) - {s}"
      by (simp add: rl_def SegmentList_RemoveFromList_def)
    have sub: "segments rl \<subseteq> {..<numSegs c}" using rl L(5) by blast
    obtain rc' where fl: "RebuildCtx_FlushRebuildSegmentList io (segments rl) (rebuildCtx c) =
        Inr (if io (withList (segments rl) (rebuildCtx c)) = 0 then 0 else - 1, rc')" "rebuild_ok (numSegs c) rc'"
      using FlushRebuildSegmentList_ok [OF L(3) sub, of io] by metis
    define rc2 where "rc2 = (if s \<in> segments (rebuildList c) then rc' else rebuildCtx c)"
    define c' where "c' = ?c\<lparr>rebuildList := rl, rebuildCtx := rc2, freeList := SegmentList_AddToList s (freeList c)\<rparr>"
    have eq: "SegmentCtx_SegmentFreed io s ?c = Inr c'"
      using False fl(1) [unfolded rl]
      by (cases "s \<in> segments (rebuildList c)") (simp_all add: SegmentCtx_SegmentFreed_def c'_def rl_def rc2_def
          SegmentList_RemoveFromList_def SegmentList_GetList_def)
    have f: "segmentInfos c' = (segmentInfos c)[s := SegmentInfo_new]" "addrInfo c' = addrInfo c"
      "rebuildList c' = rl" "segments (freeList c') = insert s (segments (freeList c))"
      "rebuildingSegment c' = rebuildingSegment c" "rebuildCtx c' = rc2"
      by (simp_all add: c'_def SegmentList_AddToList_def)
    have fs': "freeSegs c' = insert s (freeSegs c)" using fs f(1) by (simp add: freeSegs_def)
    have rc2: "rebuild_ok (numSegs c) rc2" using fl(2) L(3) by (simp add: rc2_def)
    have "segctx_inv c'"
      using inv new rl sub rc2 False ne unfolding segctx_inv_def f fs fs' by auto
    then show ?thesis using that eq fs' by blast
  qed
qed

lemma onInfo_Inr: "segId < length (segmentInfos c) \<Longrightarrow> f (segmentInfos c ! segId) = Inr (a, si) \<Longrightarrow>
    onInfo segId f c = Inr (a, c\<lparr>segmentInfos := (segmentInfos c)[segId := si]\<rparr>)"
  by (simp add: onInfo_def)

section \<open>The operations keep the invariant\<close>

lemma IncreaseValidBlockCount_inv [pos_inv]:
  assumes "segctx_inv c" "s < numSegs c" "s \<notin> freeSegs c" "SegmentCtx_IncreaseValidBlockCount s n c = Inr c'"
  shows "segctx_inv c'"
proof -
  let ?si = "snd (SegmentInfo_IncreaseValidBlockCount n (segmentInfos c ! s))"
  have len: "s < length (segmentInfos c)" using assms(2) inv_lengths(1) [OF assms(1)] by simp
  have "c' = c\<lparr>segmentInfos := (segmentInfos c)[s := ?si]\<rparr>"
    using assms(4) len
    by (simp add: SegmentCtx_IncreaseValidBlockCount_def onInfo_def SegmentInfo_IncreaseValidBlockCount_def
        split: if_splits)
  moreover have "state ?si \<noteq> FREE"
    using assms(3) len by (simp add: SegmentInfo_IncreaseValidBlockCount_def freeSegs_def)
  ultimately show ?thesis using inv_update_busy [OF assms(1-3)] by simp
qed

lemma DecreaseValidBlockCount_inv [pos_inv]:
  assumes "segctx_inv c" "s < numSegs c" "s \<notin> freeSegs c"
  obtains c' where "SegmentCtx_DecreaseValidBlockCount io s n c =
      Inr (validBlockCount (segmentInfos c ! s) = n \<and> state (segmentInfos c ! s) \<in> {SSD, VICTIM}, c')" "segctx_inv c'"
proof -
  let ?si = "segmentInfos c ! s"
  have len: "s < length (segmentInfos c)" using assms(2) inv_lengths(1) [OF assms(1)] by simp
  show ?thesis
  proof (cases "validBlockCount ?si = n \<and> state ?si \<in> {SSD, VICTIM}")
    case True
    obtain c' where "SegmentCtx_SegmentFreed io s (c\<lparr>segmentInfos := (segmentInfos c)[s := SegmentInfo_new]\<rparr>) = Inr c'"
      "segctx_inv c'" using SegmentFreed_inv [OF assms] by metis
    with True len show ?thesis
      by (intro that [of c']) (auto simp: SegmentCtx_DecreaseValidBlockCount_def onInfo_def DecreaseValidBlockCount_eq)
  next
    case False
    have "state (?si\<lparr>validBlockCount := validBlockCount ?si - n\<rparr>) \<noteq> FREE"
      using assms(3) len by (simp add: freeSegs_def)
    from inv_update_busy [OF assms this] False len show ?thesis
      by (intro that) (auto simp: SegmentCtx_DecreaseValidBlockCount_def onInfo_def DecreaseValidBlockCount_eq)
  qed
qed

lemma IncreaseOccupiedStripeCount_inv [pos_inv]:
  assumes inv: "segctx_inv c" "s < numSegs c" "s \<notin> freeSegs c"
  obtains freed c' where "SegmentCtx_IncreaseOccupiedStripeCount io s c = Inr (freed, c')" "segctx_inv c'"
proof -
  let ?si = "segmentInfos c ! s"
  let ?s1 = "?si\<lparr>occupiedStripeCount := occupiedStripeCount ?si + 1\<rparr>"
  let ?c1 = "c\<lparr>segmentInfos := (segmentInfos c)[s := ?s1]\<rparr>"
  have len: "s < length (segmentInfos c)" using assms(2) inv_lengths(1) [OF inv(1)] by simp
  have nf: "state ?s1 \<noteq> FREE" using inv(3) len by (simp add: freeSegs_def)
  have inv1: "segctx_inv ?c1" by (rule inv_update_busy [OF inv nf])
  have s1: "s < numSegs ?c1" "s \<notin> freeSegs ?c1" using inv nf len by (auto simp: freeSegs_update)
  consider (more) "unat (occupiedStripeCount ?si + 1) \<noteq> stripesPerSegment (addrInfo c)"
    | (empty) "unat (occupiedStripeCount ?si + 1) = stripesPerSegment (addrInfo c)" "validBlockCount ?si = 0"
    | (full) "unat (occupiedStripeCount ?si + 1) = stripesPerSegment (addrInfo c)" "validBlockCount ?si \<noteq> 0"
    by blast
  then show ?thesis
  proof cases
    case more
    with len inv1 show ?thesis
      by (intro that [of False ?c1]) (simp_all add: SegmentCtx_IncreaseOccupiedStripeCount_def onInfo_def
          SegmentInfo_IncreaseOccupiedStripeCount_def)
  next
    case empty
    obtain c' where "SegmentCtx_SegmentFreed io s (?c1\<lparr>segmentInfos := (segmentInfos ?c1)[s := SegmentInfo_new]\<rparr>) = Inr c'"
      "segctx_inv c'" using SegmentFreed_inv [OF inv1 s1] by metis
    with empty len show ?thesis
      by (intro that [of True c']) (simp_all add: SegmentCtx_IncreaseOccupiedStripeCount_def onInfo_def
          SegmentInfo_IncreaseOccupiedStripeCount_def MoveToSsdOrFree_eq)
  next
    case full
    from inv_update_busy [OF inv, of "?s1\<lparr>state := SSD\<rparr>"] full len show ?thesis
      by (intro that [of False]) (simp_all add: SegmentCtx_IncreaseOccupiedStripeCount_def onInfo_def
          SegmentInfo_IncreaseOccupiedStripeCount_def MoveToSsdOrFree_eq)
  qed
qed

section \<open>Allocation of a free segment\<close>

lemma AllocateFreeSegment_none:
  assumes "segments (freeList c) = {}"
  shows "SegmentCtx_AllocateFreeSegment c = Some (Inr (UNMAP_SEGMENT, c))"
  by (subst SegmentCtx_AllocateFreeSegment.simps) (simp add: SegmentList_PopSegment_def assms)

lemma AllocateFreeSegment_least:
  assumes "segments (freeList c) \<noteq> {}" "m = Min (segments (freeList c))" "m \<noteq> UNMAP_SEGMENT"
    "m \<notin> segments (rebuildList c)" "m < length (segmentInfos c)" "state (segmentInfos c ! m) = FREE"
  shows "SegmentCtx_AllocateFreeSegment c = Some (Inr (m,
    c\<lparr>freeList := snd (SegmentList_PopSegment (freeList c)),
       segmentInfos := (segmentInfos c)[m := (segmentInfos c ! m)\<lparr>state := NVRAM\<rparr>]\<rparr>))"
  using assms
  by (subst SegmentCtx_AllocateFreeSegment.simps) (simp add: SegmentList_PopSegment_def SegmentList_Contains_def
      SegmentCtx_AllocateSegment_def onInfo_def SegmentInfo_MoveToNvramState_def Let_def)

text \<open>
  When the least free segment is also to be rebuilt, the segment is popped and added again for ever: the
  loop comes back to a state with the same lists.
\<close>

lemma AllocateFreeSegment_spin:
  assumes "segments (freeList c) \<noteq> {}" "finite (segments (freeList c))" "m = Min (segments (freeList c))"
    "m \<noteq> UNMAP_SEGMENT" "m \<in> segments (rebuildList c)"
  shows "SegmentList_AddToList m (snd (SegmentList_PopSegment (freeList c))) = freeList c"
  using assms Min_in [of "segments (freeList c)"]
  by (auto simp: SegmentList_AddToList_def SegmentList_PopSegment_def Let_def insert_absorb)

lemma AllocateFreeSegment_diverges:
  assumes "segments (freeList c) \<noteq> {}" "finite (segments (freeList c))"
    "Min (segments (freeList c)) \<noteq> UNMAP_SEGMENT" "Min (segments (freeList c)) \<in> segments (rebuildList c)"
  shows "SegmentCtx_AllocateFreeSegment c = None"
proof -
  let ?spin = "\<lambda>c. segments (freeList c) \<noteq> {} \<and> finite (segments (freeList c)) \<and>
    Min (segments (freeList c)) \<noteq> UNMAP_SEGMENT \<and> Min (segments (freeList c)) \<in> segments (rebuildList c)"
  have "\<not> ?spin c" if "SegmentCtx_AllocateFreeSegment c = Some r" for c r
    using _ that
  proof (rule SegmentCtx_AllocateFreeSegment.raw_induct [where P = "\<lambda>c r. \<not> ?spin c"])
    fix f c y
    assume IH: "\<And>c y. f c = Some y \<Longrightarrow> \<not> ?spin c"
      and eq: "(let (segId, fl) = SegmentList_PopSegment (freeList c); c1 = c\<lparr>freeList := fl\<rparr>
         in if segId = UNMAP_SEGMENT then Some (Inr (UNMAP_SEGMENT, c1))
            else if SegmentList_Contains segId (rebuildList c1)
            then f (c1\<lparr>freeList := SegmentList_AddToList segId fl\<rparr>)
            else Some (andThen (SegmentCtx_AllocateSegment segId c1) (\<lambda>c2. Inr (segId, c2)))) = Some y"
    show "\<not> ?spin c"
    proof
      assume sp: "?spin c"
      then have "SegmentList_AddToList (Min (segments (freeList c))) (snd (SegmentList_PopSegment (freeList c))) = freeList c"
        using AllocateFreeSegment_spin by blast
      then have "f (c\<lparr>freeList := freeList c\<rparr>) = Some y"
        using eq sp by (simp add: SegmentList_PopSegment_def SegmentList_Contains_def Let_def)
      then show False using IH [of c] sp by simp
    qed
  qed
  then show ?thesis using assms by (cases "SegmentCtx_AllocateFreeSegment c") auto
qed

text \<open>With the invariant the loop body runs once: no free segment in the list is to be rebuilt.\<close>

lemma AllocateFreeSegment_inv [pos_inv]:
  assumes inv: "segctx_inv c"
  obtains s c' where "SegmentCtx_AllocateFreeSegment c = Some (Inr (s, c'))" "segctx_inv c'"
    "s = (if segments (freeList c) = {} then UNMAP_SEGMENT else Min (segments (freeList c)))"
    "s \<noteq> UNMAP_SEGMENT \<longrightarrow> s \<in> freeSegs c \<and> freeSegs c' = freeSegs c - {s} \<and>
       segmentInfos c' ! s = SegmentInfo_new\<lparr>state := NVRAM\<rparr>"
    "s = UNMAP_SEGMENT \<longrightarrow> c' = c"
proof (cases "segments (freeList c) = {}")
  case True
  with inv show ?thesis
    by (intro that [of UNMAP_SEGMENT c]) (simp_all add: AllocateFreeSegment_none)
next
  case False
  note L = inv_lengths [OF inv]
  define m where "m = Min (segments (freeList c))"
  have fin: "finite (segments (freeList c))" using L(4) by simp
  have m: "m \<in> segments (freeList c)" unfolding m_def using fin False by (rule Min_in)
  then have mf: "m \<in> freeSegs c" "m \<noteq> rebuildingSegment c" using L(4) by auto
  then have lt: "m < length (segmentInfos c)" "state (segmentInfos c ! m) = FREE" by (simp_all add: freeSegs_def)
  have ne: "m \<noteq> UNMAP_SEGMENT" using lt(1) L(1,2) by simp
  have nr: "m \<notin> segments (rebuildList c)" using inv mf by (auto simp: segctx_inv_def)
  have new: "segmentInfos c ! m = SegmentInfo_new" using inv mf(1) by (simp add: segctx_inv_def)
  define c' where "c' = c\<lparr>freeList := snd (SegmentList_PopSegment (freeList c)),
      segmentInfos := (segmentInfos c)[m := (segmentInfos c ! m)\<lparr>state := NVRAM\<rparr>]\<rparr>"
  have eq: "SegmentCtx_AllocateFreeSegment c = Some (Inr (m, c'))"
    unfolding c'_def by (rule AllocateFreeSegment_least [OF False m_def ne nr lt])
  have f: "segmentInfos c' = (segmentInfos c)[m := SegmentInfo_new\<lparr>state := NVRAM\<rparr>]" "addrInfo c' = addrInfo c"
    "rebuildList c' = rebuildList c" "segments (freeList c') = segments (freeList c) - {m}"
    "rebuildingSegment c' = rebuildingSegment c" "rebuildCtx c' = rebuildCtx c"
    using False by (simp_all add: c'_def m_def [symmetric] SegmentList_PopSegment_def Let_def new)
  have fs: "freeSegs c' = freeSegs c - {m}"
    using lt(1) f(1) by (auto simp: freeSegs_def nth_list_update)
  have "\<forall>i\<in>freeSegs c'. segmentInfos c' ! i = SegmentInfo_new"
    using inv unfolding fs f by (auto simp: segctx_inv_def)
  then have "segctx_inv c'" using inv fs nr unfolding segctx_inv_def f fs by auto
  with eq show ?thesis by (intro that [of m c']) (use False m_def mf fs f lt ne in auto)
qed

section \<open>Victims of garbage collection\<close>

definition isVictim :: "SegmentCtx \<Rightarrow> nat \<Rightarrow> bool" where
  "isVictim c v \<longleftrightarrow> v < numSegs c \<and> state (segmentInfos c ! v) = SSD \<and>
     unat (validBlockCount (segmentInfos c ! v)) < blksPerSegment (addrInfo c) \<and>
     (\<forall>j<numSegs c. state (segmentInfos c ! j) = SSD \<longrightarrow>
        unat (validBlockCount (segmentInfos c ! v)) \<le> unat (validBlockCount (segmentInfos c ! j)) \<and>
        (j < v \<longrightarrow> unat (validBlockCount (segmentInfos c ! v)) < unat (validBlockCount (segmentInfos c ! j))))"

lemma unat_le_max: "unat (w :: uint32) \<le> 2 ^ 32 - 1"
proof -
  have "unat w < 2 ^ 32" by (rule order_less_le_trans [OF unsigned_less]) simp
  then show ?thesis by simp
qed

lemma unat_max: "unat (- 1 :: uint32) = 2 ^ 32 - 1"
  by (simp add: unsigned_minus_1_eq_mask mask_eq_exp_minus_1)

lemma FindMostInvalidSSDSegment_cases:
  assumes len: "length (segmentInfos c) = numSegs c" and b: "blksPerSegment (addrInfo c) < 2 ^ 32"
  obtains (noVictim) "SegmentCtx_FindMostInvalidSSDSegment c = Inr UNMAP_SEGMENT"
      "\<forall>j<numSegs c. state (segmentInfos c ! j) = SSD \<longrightarrow>
         blksPerSegment (addrInfo c) \<le> unat (validBlockCount (segmentInfos c ! j))"
    | (victim) v where "SegmentCtx_FindMostInvalidSSDSegment c = Inr v" "isVictim c v"
proof -
  let ?g = "\<lambda>j. unat (SegmentInfo_GetValidBlockCountIfSsdState (segmentInfos c ! j))"
  let ?b = "blksPerSegment (addrInfo c)"
  have g: "?g j = (if state (segmentInfos c ! j) = SSD then unat (validBlockCount (segmentInfos c ! j)) else 2 ^ 32 - 1)" for j
    by (simp add: SegmentInfo_GetValidBlockCountIfSsdState_def unsigned_minus_1_eq_mask mask_eq_exp_minus_1)
  obtain v m where f: "SegmentCtx_FindMostInvalidSSDSegment c = Inr v"
    and vm: "(v = UNMAP_SEGMENT \<and> m = ?b \<and> (\<forall>j<numSegs c. ?b \<le> ?g j)) \<or>
      (v < numSegs c \<and> m < ?b \<and> m = ?g v \<and> (\<forall>j<numSegs c. m \<le> ?g j) \<and> (\<forall>j<v. m < ?g j))"
    using FindMostInvalid_loop [of "numSegs c" "segmentInfos c" ?b] len
    unfolding SegmentCtx_FindMostInvalidSSDSegment_def by fastforce
  from vm show ?thesis
  proof
    assume a: "v = UNMAP_SEGMENT \<and> m = ?b \<and> (\<forall>j<numSegs c. ?b \<le> ?g j)"
    then have "\<forall>j<numSegs c. state (segmentInfos c ! j) = SSD \<longrightarrow> ?b \<le> unat (validBlockCount (segmentInfos c ! j))"
      by (metis g)
    with a f noVictim show ?thesis by simp
  next
    assume a: "v < numSegs c \<and> m < ?b \<and> m = ?g v \<and> (\<forall>j<numSegs c. m \<le> ?g j) \<and> (\<forall>j<v. m < ?g j)"
    then have ssd: "state (segmentInfos c ! v) = SSD" using b g [of v] by (auto split: if_splits)
    then have "isVictim c v"
      unfolding isVictim_def using a g [of v] by (auto simp: g dest!: spec split: if_splits)
    with f victim show ?thesis by blast
  qed
qed

lemma AllocateGCVictimSegment_inv [pos_inv]:
  assumes inv: "segctx_inv c" and b: "blksPerSegment (addrInfo c) < 2 ^ 32"
  obtains (none) "SegmentCtx_AllocateGCVictimSegment c = Inr (UNMAP_SEGMENT, c)" "\<forall>v. \<not> isVictim c v"
    | (some) v c' where "SegmentCtx_AllocateGCVictimSegment c = Inr (v, c')" "isVictim c v" "segctx_inv c'"
      "segmentInfos c' = (segmentInfos c)[v := (segmentInfos c ! v)\<lparr>state := VICTIM\<rparr>]"
  using inv_lengths(1) [OF inv] b
proof (cases rule: FindMostInvalidSSDSegment_cases)
  case noVictim
  then have "\<not> isVictim c v" for v by (auto simp: isVictim_def not_less)
  with noVictim(1) show ?thesis using none by (simp add: SegmentCtx_AllocateGCVictimSegment_def)
next
  case (victim v)
  let ?c = "c\<lparr>segmentInfos := (segmentInfos c)[v := (segmentInfos c ! v)\<lparr>state := VICTIM\<rparr>]\<rparr>"
  have v: "v < numSegs c" "state (segmentInfos c ! v) = SSD" using victim by (simp_all add: isVictim_def)
  have "v \<notin> freeSegs c" using v by (simp add: freeSegs_def)
  then have "segctx_inv ?c" using inv_update_busy [OF inv v(1)] by simp
  moreover have "SegmentCtx_AllocateGCVictimSegment c = Inr (v, ?c)"
    using victim v inv_lengths [OF inv]
    by (simp add: SegmentCtx_AllocateGCVictimSegment_def onInfo_def SegmentInfo_MoveToVictimState_def)
  ultimately show ?thesis using some [of v ?c] victim by simp
qed

section \<open>Rebuild\<close>

text \<open>
  While no segment is under rebuild, none of the segments to rebuild is free, so the loop of
  \<open>GetRebuildTargetSegment\<close> returns at once.
\<close>

lemma GetRebuildTargetSegment_inv [pos_inv]:
  assumes inv: "segctx_inv c" and idle: "rebuildingSegment c = UNMAP_SEGMENT"
  obtains s c' where "SegmentCtx_GetRebuildTargetSegment io c = Some (Inr (s, c'))" "segctx_inv c'"
    "s = SegmentList_GetFrontSegment (rebuildList c)" "c' = c\<lparr>rebuildingSegment := s\<rparr>"
proof (cases "segments (rebuildList c) = {}")
  case True
  then have "SegmentCtx_GetRebuildTargetSegment io c = Some (Inr (UNMAP_SEGMENT, c))"
    by (subst SegmentCtx_GetRebuildTargetSegment.simps) (simp add: SegmentList_GetFrontSegment_def)
  moreover have "c = c\<lparr>rebuildingSegment := UNMAP_SEGMENT\<rparr>" using idle by simp
  ultimately show ?thesis using that [of UNMAP_SEGMENT c] inv True by (simp add: SegmentList_GetFrontSegment_def)
next
  case False
  note L = inv_lengths [OF inv]
  define m where "m = Min (segments (rebuildList c))"
  have m: "m \<in> segments (rebuildList c)" unfolding m_def using L(6) False by (rule Min_in)
  then have lt: "m < length (segmentInfos c)" "m \<noteq> UNMAP_SEGMENT" using L by auto
  have nf: "m \<notin> freeSegs c" using inv m idle lt by (auto simp: segctx_inv_def)
  let ?c = "c\<lparr>rebuildingSegment := m\<rparr>"
  have "SegmentCtx_GetRebuildTargetSegment io c = Some (Inr (m, ?c))"
    using False m_def lt nf
    by (subst SegmentCtx_GetRebuildTargetSegment.simps) (simp add: SegmentList_GetFrontSegment_def freeSegs_def Let_def)
  moreover have "segctx_inv ?c"
    using inv m nf idle lt(2) freeSegs_bound [of c] L
    by (auto simp: segctx_inv_def freeSegs_cong [of ?c c])
  ultimately show ?thesis using that [of m ?c] False m_def by (simp add: SegmentList_GetFrontSegment_def)
qed

lemma Flush_list_inv:
  assumes inv: "segctx_inv c" and sub: "S \<subseteq> {..<numSegs c}"
  obtains ret rc where "RebuildCtx_FlushRebuildSegmentList io S (rebuildCtx c) = Inr (ret, rc)"
    "rebuild_ok (numSegs c) rc" "RebuildCtx_GetList rc = Inr S"
  using FlushRebuildSegmentList_ok [OF inv_lengths(3) [OF inv] sub, of io] by metis

lemma SetRebuildCompleted_inv [pos_inv]:
  assumes inv: "segctx_inv c" and s: "rebuildingSegment c = s" "s \<noteq> UNMAP_SEGMENT"
  obtains ret c' where "SegmentCtx_SetRebuildCompleted io s c = Inr (ret, c')" "segctx_inv c'"
    "rebuildingSegment c' = UNMAP_SEGMENT" "segments (rebuildList c') = segments (rebuildList c) - {s}"
    "RebuildCtx_GetList (rebuildCtx c') = Inr (segments (rebuildList c'))"
proof -
  note L = inv_lengths [OF inv]
  have mem: "s \<in> segments (rebuildList c)" using inv s by (auto simp: segctx_inv_def)
  then have lt: "s < length (segmentInfos c)" using L by auto
  have sub: "segments (rebuildList c) - {s} \<subseteq> {..<numSegs c}" using L(5) by blast
  obtain ret rc where fl: "RebuildCtx_FlushRebuildSegmentList io (segments (rebuildList c) - {s}) (rebuildCtx c) = Inr (ret, rc)"
    "rebuild_ok (numSegs c) rc" "RebuildCtx_GetList rc = Inr (segments (rebuildList c) - {s})"
    using Flush_list_inv [OF inv sub] .
  define c' where "c' = c\<lparr>rebuildingSegment := UNMAP_SEGMENT,
      rebuildList := (rebuildList c)\<lparr>segments := segments (rebuildList c) - {s}\<rparr>, rebuildCtx := rc,
      freeList := (if s \<in> freeSegs c then SegmentList_AddToList s (freeList c) else freeList c)\<rparr>"
  have eq: "SegmentCtx_SetRebuildCompleted io s c = Inr (ret, c')"
    using mem fl(1) lt by (simp add: SegmentCtx_SetRebuildCompleted_def SegmentCtx_ResetSegmentIdInRebuilding_def
        SegmentList_RemoveFromList_def SegmentList_GetList_def c'_def freeSegs_def Let_def)
  have f: "segmentInfos c' = segmentInfos c" "addrInfo c' = addrInfo c"
    "segments (rebuildList c') = segments (rebuildList c) - {s}" "rebuildCtx c' = rc"
    "rebuildingSegment c' = UNMAP_SEGMENT"
    "segments (freeList c') = (if s \<in> freeSegs c then insert s (segments (freeList c)) else segments (freeList c))"
    by (simp_all add: c'_def SegmentList_AddToList_def)
  have fs: "freeSegs c' = freeSegs c" using f(1) by (rule freeSegs_cong)
  have "UNMAP_SEGMENT \<notin> freeSegs c" using freeSegs_bound [of c] L by auto
  then have "segctx_inv c'" using inv fl(2) s sub unfolding segctx_inv_def f fs by auto
  with eq f fl(3) show ?thesis by (intro that [of ret c']) simp_all
qed

lemma MakeRebuildTarget_inv [pos_inv]:
  assumes inv: "segctx_inv c" and nf: "rebuildingSegment c \<notin> freeSegs c"
  obtains ret c' where
    "SegmentCtx_MakeRebuildTarget io c = Inr (ret, segments (rebuildList c'), c')" "segctx_inv c'"
    "segments (rebuildList c') = {..<numSegs c} - freeSegs c"
    "RebuildCtx_GetList (rebuildCtx c') = Inr (segments (rebuildList c'))"
proof -
  note L = inv_lengths [OF inv]
  have S: "segments (rebuildList c) \<union> ({..<numSegs c} - freeSegs c) = {..<numSegs c} - freeSegs c"
    using inv nf by (auto simp: segctx_inv_def)
  obtain n where b: "SegmentCtx_BuildRebuildSegmentList c =
     Inr (c\<lparr>rebuildList := (rebuildList c)\<lparr>segments := {..<numSegs c} - freeSegs c, numSegments := n\<rparr>,
            rebuildingSegment := UNMAP_SEGMENT\<rparr>)"
    using BuildRebuildSegmentList_eq [of c] L(1) unfolding S by auto
  obtain ret rc where fl: "RebuildCtx_FlushRebuildSegmentList io ({..<numSegs c} - freeSegs c) (rebuildCtx c) = Inr (ret, rc)"
    "rebuild_ok (numSegs c) rc" "RebuildCtx_GetList rc = Inr ({..<numSegs c} - freeSegs c)"
    using Flush_list_inv [OF inv, of "{..<numSegs c} - freeSegs c" io] by blast
  define c' where "c' = c\<lparr>rebuildList := (rebuildList c)\<lparr>segments := {..<numSegs c} - freeSegs c, numSegments := n\<rparr>,
      rebuildingSegment := UNMAP_SEGMENT, rebuildCtx := rc\<rparr>"
  have eq: "SegmentCtx_MakeRebuildTarget io c = Inr (ret, segments (rebuildList c'), c')"
    using fl(1) by (simp add: SegmentCtx_MakeRebuildTarget_def b c'_def SegmentList_GetList_def Let_def)
  have f: "segmentInfos c' = segmentInfos c" "addrInfo c' = addrInfo c" "rebuildingSegment c' = UNMAP_SEGMENT"
    "segments (rebuildList c') = {..<numSegs c} - freeSegs c" "rebuildCtx c' = rc" "freeList c' = freeList c"
    by (simp_all add: c'_def)
  have fs: "freeSegs c' = freeSegs c" using f(1) by (rule freeSegs_cong)
  have "UNMAP_SEGMENT \<notin> freeSegs c" using freeSegs_bound [of c] L by auto
  then have "segctx_inv c'" using inv fl(2) nf unfolding segctx_inv_def f fs by auto
  with eq f fl(3) show ?thesis by (intro that [of ret c']) simp_all
qed

lemma StopRebuilding_inv [pos_inv]:
  assumes inv: "segctx_inv c" and nf: "rebuildingSegment c \<notin> freeSegs c"
  obtains ret c' where "SegmentCtx_StopRebuilding io c = Inr (ret, c')" "segctx_inv c'"
proof (cases "numSegments (rebuildList c) = 0")
  case True
  then show ?thesis
    using inv by (intro that [of "- ALLOCATOR_REBUILD_TARGET_SET_EMPTY" c]) (simp_all add: SegmentCtx_StopRebuilding_def SegmentList_GetNumSegments_def)
next
  case False
  note L = inv_lengths [OF inv]
  obtain ret rc where fl: "RebuildCtx_FlushRebuildSegmentList io (segments (rebuildList c)) (rebuildCtx c) = Inr (ret, rc)"
    "rebuild_ok (numSegs c) rc" using Flush_list_inv [OF inv L(5), of io] by blast
  let ?c = "c\<lparr>rebuildingSegment := UNMAP_SEGMENT, rebuildCtx := rc\<rparr>"
  have "UNMAP_SEGMENT \<notin> freeSegs c" using freeSegs_bound [of c] L by auto
  moreover have "freeSegs ?c = freeSegs c" by (rule freeSegs_cong) simp
  ultimately have "segctx_inv ?c" using inv fl(2) nf unfolding segctx_inv_def by auto
  with False fl(1) show ?thesis
    by (intro that [of ret ?c]) (simp_all add: SegmentCtx_StopRebuilding_def SegmentList_GetNumSegments_def
        SegmentCtx_ResetSegmentIdInRebuilding_def SegmentList_GetList_def)
qed

section \<open>The segments over time\<close>

text \<open>
  The operations other components call while an array is mounted. Counts are only changed for segments
  that are not free. A rebuild target is asked for when no segment is under rebuild, the completion is
  reported for the segment under rebuild, and a rebuild is started or stopped only while the segment under
  rebuild is not free. Every call may get its own answers from the metadata file.
\<close>

inductive segctxStep :: "SegmentCtx \<Rightarrow> SegmentCtx \<Rightarrow> bool" where
  allocate: "SegmentCtx_AllocateFreeSegment c = Some (Inr (s, c')) \<Longrightarrow> segctxStep c c'"
| incValid: "s < numSegs c \<Longrightarrow> s \<notin> freeSegs c \<Longrightarrow> SegmentCtx_IncreaseValidBlockCount s n c = Inr c' \<Longrightarrow>
    segctxStep c c'"
| decValid: "s < numSegs c \<Longrightarrow> s \<notin> freeSegs c \<Longrightarrow>
    SegmentCtx_DecreaseValidBlockCount io s n c = Inr (freed, c') \<Longrightarrow> segctxStep c c'"
| occupy: "s < numSegs c \<Longrightarrow> s \<notin> freeSegs c \<Longrightarrow>
    SegmentCtx_IncreaseOccupiedStripeCount io s c = Inr (freed, c') \<Longrightarrow> segctxStep c c'"
| victim: "blksPerSegment (addrInfo c) < 2 ^ 32 \<Longrightarrow>
    SegmentCtx_AllocateGCVictimSegment c = Inr (s, c') \<Longrightarrow> segctxStep c c'"
| target: "rebuildingSegment c = UNMAP_SEGMENT \<Longrightarrow>
    SegmentCtx_GetRebuildTargetSegment io c = Some (Inr (s, c')) \<Longrightarrow> segctxStep c c'"
| completed: "rebuildingSegment c \<noteq> UNMAP_SEGMENT \<Longrightarrow>
    SegmentCtx_SetRebuildCompleted io (rebuildingSegment c) c = Inr (ret, c') \<Longrightarrow> segctxStep c c'"
| makeTarget: "rebuildingSegment c \<notin> freeSegs c \<Longrightarrow>
    SegmentCtx_MakeRebuildTarget io c = Inr (ret, segs, c') \<Longrightarrow> segctxStep c c'"
| stop: "rebuildingSegment c \<notin> freeSegs c \<Longrightarrow>
    SegmentCtx_StopRebuilding io c = Inr (ret, c') \<Longrightarrow> segctxStep c c'"

lemma segctxStep_inv [pos_inv]:
  assumes "segctxStep c c'" "segctx_inv c"
  shows "segctx_inv c'"
  using assms(1)
proof cases
  case (allocate s)
  from AllocateFreeSegment_inv [OF assms(2)] show ?thesis using allocate by fastforce
next
  case (incValid s n)
  with assms(2) show ?thesis by (auto dest: IncreaseValidBlockCount_inv)
next
  case (decValid s io n freed)
  from DecreaseValidBlockCount_inv [OF assms(2) decValid(1,2), where io = io and n = n]
  obtain c1 where "SegmentCtx_DecreaseValidBlockCount io s n c = Inr (freed, c1)" "segctx_inv c1"
    using decValid(3) by auto
  with decValid(3) show ?thesis by simp
next
  case (occupy s io freed)
  from IncreaseOccupiedStripeCount_inv [OF assms(2) occupy(1,2), where io = io]
  show ?thesis using occupy(3) by fastforce
next
  case (victim s)
  then show ?thesis
    using assms(2) by (cases rule: AllocateGCVictimSegment_inv [OF assms(2) victim(1)]) auto
next
  case (target io s)
  from GetRebuildTargetSegment_inv [OF assms(2) target(1), where io = io]
  show ?thesis using target(2) by fastforce
next
  case (completed io ret)
  from SetRebuildCompleted_inv [OF assms(2) refl completed(1), where io = io]
  show ?thesis using completed(2) by fastforce
next
  case (makeTarget io ret segs)
  from MakeRebuildTarget_inv [OF assms(2) makeTarget(1), where io = io]
  show ?thesis using makeTarget(2) by fastforce
next
  case (stop io ret)
  from StopRebuilding_inv [OF assms(2) stop(1), where io = io]
  show ?thesis using stop(2) by fastforce
qed

lemma Init_inv [pos_inv]:
  assumes n: "numUserAreaSegments info < UNMAP_SEGMENT"
    and c: "c = SegmentCtx_new (RebuildCtx_Init (numUserAreaSegments info) RebuildCtx_new) info"
  shows "\<exists>c0. SegmentCtx_Init c = Inr c0 \<and> segctx_inv c0 \<and> addrInfo c0 = info \<and>
    freeSegs c0 = {..<numUserAreaSegments info} \<and> rebuildList c0 = SegmentList_new \<and>
    rebuildingSegment c0 = UNMAP_SEGMENT"
proof -
  let ?N = "numUserAreaSegments info"
  let ?c1 = "c\<lparr>segHeader := (segHeader c)\<lparr>ctxVersion := 0\<rparr>, segStoredVersion := 0, segDirtyVersion := 0,
                segmentInfos := replicate ?N SegmentInfo_new\<rparr>"
  have fs: "freeSegs ?c1 = {..<?N}" by (auto simp: freeSegs_def SegmentInfo_new_def)
  define c0 where "c0 = ?c1\<lparr>freeList := (freeList ?c1)\<lparr>segments := {..<?N}, numSegments := of_nat ?N\<rparr>,
      segInitialized := True\<rparr>"
  have cf: "numSegs c = ?N" "\<not> segInitialized c" by (simp_all add: c SegmentCtx_new_def)
  have "SegmentCtx_RebuildFreeSegmentList ?c1 =
      Inr (?c1\<lparr>freeList := (freeList ?c1)\<lparr>segments := {..<?N}, numSegments := of_nat ?N\<rparr>\<rparr>)"
    using RebuildFreeSegmentList_eq [of ?c1] cf unfolding fs by simp
  then have eq: "SegmentCtx_Init c = Inr c0"
    unfolding SegmentCtx_Init_def cf(1) c0_def using cf(2) by simp
  have f: "addrInfo c0 = info" "segmentInfos c0 = replicate ?N SegmentInfo_new" "rebuildList c0 = SegmentList_new"
    "rebuildingSegment c0 = UNMAP_SEGMENT" "segments (freeList c0) = {..<?N}"
    "rebuildCtx c0 = RebuildCtx_Init ?N RebuildCtx_new"
    by (simp_all add: c0_def c SegmentCtx_new_def)
  have fs0: "freeSegs c0 = {..<?N}" using f(2) by (auto simp: freeSegs_def SegmentInfo_new_def)
  have "segctx_inv c0"
    using n rebuild_ok_Init [of ?N] unfolding segctx_inv_def fs0 f by (auto simp: SegmentList_new_def)
  with eq f fs0 show ?thesis by blast
qed

definition segctxReach :: "AllocatorAddressInfo \<Rightarrow> SegmentCtx \<Rightarrow> bool" where
  "segctxReach info c \<longleftrightarrow> (\<exists>c0. SegmentCtx_Init
     (SegmentCtx_new (RebuildCtx_Init (numUserAreaSegments info) RebuildCtx_new) info) = Inr c0 \<and> segctxStep\<^sup>*\<^sup>* c0 c)"

lemma segctxReach_inv:
  assumes "segctxReach info c" "numUserAreaSegments info < UNMAP_SEGMENT"
  shows "segctx_inv c"
proof -
  obtain c0 where i: "SegmentCtx_Init
     (SegmentCtx_new (RebuildCtx_Init (numUserAreaSegments info) RebuildCtx_new) info) = Inr c0" "segctxStep\<^sup>*\<^sup>* c0 c"
    using assms(1) by (auto simp: segctxReach_def)
  have "segctx_inv c0" using Init_inv [OF assms(2) refl] i(1) by auto
  with i(2) show ?thesis by (induction rule: rtranclp_induct) (auto intro: segctxStep_inv)
qed

section \<open>Properties\<close>

definition sampleInfo :: AllocatorAddressInfo where
  "sampleInfo = \<lparr>blksPerStripe = 4, chunksPerStripe = 2, numWbStripes = 8, numUserAreaStripes = 16,
     blksPerSegment = 16, stripesPerSegment = 4, numUserAreaSegments = 4, isUT = False\<rparr>"

lemma sample_reach: "\<exists>c. segctxReach sampleInfo c \<and> freeSegs c = {..<4}"
proof -
  have "numUserAreaSegments sampleInfo < UNMAP_SEGMENT" by (simp add: sampleInfo_def)
  then obtain c0 where "SegmentCtx_Init (SegmentCtx_new
      (RebuildCtx_Init (numUserAreaSegments sampleInfo) RebuildCtx_new) sampleInfo) = Inr c0"
    "freeSegs c0 = {..<numUserAreaSegments sampleInfo}" using Init_inv [OF _ refl] by blast
  moreover have "numUserAreaSegments sampleInfo = 4" by (simp add: sampleInfo_def)
  ultimately show ?thesis unfolding segctxReach_def by auto
qed





text \<open>
  C18. Outside the reachable states of the previous properties the loop need not end: when the least free
  segment is also in the list of segments to rebuild, as after \<open>LoadRebuildList\<close> of a list that still names a
  freed segment, \<open>SegmentCtx::AllocateFreeSegment\<close> does not return.
\<close>

theorem AllocateFreeSegment_loops:
  assumes "segments (freeList c) \<noteq> {}" "finite (segments (freeList c))"
    "Min (segments (freeList c)) \<noteq> 2 ^ 32 - 1" "Min (segments (freeList c)) \<in> segments (rebuildList c)"
  shows "SegmentCtx_AllocateFreeSegment c = None"
  using assms by (rule AllocateFreeSegment_diverges)

definition spinCtx :: SegmentCtx where
  "spinCtx = (SegmentCtx_new RebuildCtx_new sampleInfo)\<lparr>segmentInfos := replicate 4 SegmentInfo_new,
     freeList := SegmentList_SetList {0, 1, 2, 3} SegmentList_new, rebuildList := SegmentList_SetList {0} SegmentList_new\<rparr>"

theorem AllocateFreeSegment_loops_witness: "SegmentCtx_AllocateFreeSegment spinCtx = None"
  using AllocateFreeSegment_loops [of spinCtx] by (simp add: spinCtx_def SegmentCtx_new_def SegmentList_SetList_def)

text \<open>
  C5. \<open>SegmentCtx::AllocateGCVictimSegment\<close> picks, among the segments in state \<open>SSD\<close> with fewer valid blocks
  than a segment holds, one with the fewest valid blocks, the lowest numbered among equals, and moves it to
  state \<open>VICTIM\<close>; with no such segment it returns \<open>UNMAP_SEGMENT\<close> and changes nothing.
\<close>

theorem victim_is_most_invalid:
  assumes "segctxReach info c" "numUserAreaSegments info < 2 ^ 32 - 1" "blksPerSegment (addrInfo c) < 2 ^ 32"
  shows "(SegmentCtx_AllocateGCVictimSegment c = Inr (2 ^ 32 - 1, c) \<and> (\<forall>v. \<not> isVictim c v)) \<or>
    (\<exists>v c'. SegmentCtx_AllocateGCVictimSegment c = Inr (v, c') \<and> isVictim c v \<and>
      segmentInfos c' = (segmentInfos c)[v := (segmentInfos c ! v)\<lparr>state := VICTIM\<rparr>])"
  using AllocateGCVictimSegment_inv [OF segctxReach_inv [OF assms(1,2)] assms(3)] by metis

lemma sample_addrInfo: "\<exists>c. segctxReach sampleInfo c \<and> addrInfo c = sampleInfo"
proof -
  have "numUserAreaSegments sampleInfo < UNMAP_SEGMENT" by (simp add: sampleInfo_def)
  from Init_inv [OF this refl] show ?thesis unfolding segctxReach_def by auto
qed

theorem victim_is_most_invalid_witness:
  "\<exists>c v c'. segctxReach sampleInfo c \<and> SegmentCtx_AllocateGCVictimSegment c = Inr (v, c')"
proof -
  obtain c where "segctxReach sampleInfo c" "addrInfo c = sampleInfo" using sample_addrInfo by blast
  then show ?thesis using victim_is_most_invalid [of sampleInfo c] by (auto simp: sampleInfo_def)
qed



text \<open>
  C19. A rebuild that is stopped while the segment under rebuild has been freed loses that segment:
  \<open>StopRebuilding\<close> forgets which segment was under rebuild, and \<open>GetRebuildTargetSegment\<close> later takes the free
  segment off the list of segments to rebuild without adding it to the free list.
\<close>

definition stoppedCtx :: SegmentCtx where
  "stoppedCtx = (SegmentCtx_new (RebuildCtx_Init 4 RebuildCtx_new) sampleInfo)\<lparr>
     segmentInfos := replicate 4 SegmentInfo_new, freeList := SegmentList_SetList {1, 2, 3} SegmentList_new,
     rebuildList := SegmentList_SetList {0} SegmentList_new, rebuildingSegment := 0\<rparr>"


end
