(* ===== verification/AllocatorCtx.thy ===== *)
theory AllocatorCtx
  imports Bitmap AllocatorFileIo AddressTypes
begin

text \<open>
  The allocation state of stripes (\<^verbatim>\<open>src/allocator/context_manager/allocator_ctx/allocator_ctx.cpp\<close>): the
  bitmap of write buffer stripes, the last allocated stripe of the user area and the tail of the active
  stripe of every volume, with the file they are stored in.
\<close>

section \<open>State\<close>

abbreviation (input) SIG_ALLOCATOR_CTX :: nat where
  "SIG_ALLOCATOR_CTX \<equiv> 0xBFBFBFBF"

abbreviation (input) MAX_VOLUME_COUNT :: nat where
  "MAX_VOLUME_COUNT \<equiv> 256"

abbreviation (input) ACTIVE_STRIPE_TAIL_ARRAYLEN :: nat where
  "ACTIVE_STRIPE_TAIL_ARRAYLEN \<equiv> MAX_VOLUME_COUNT"

abbreviation (input) STRIPES_PER_SEGMENT :: nat where
  "STRIPES_PER_SEGMENT \<equiv> 1024"

record AllocatorCtx =
  allocHeader :: AllocatorCtxHeader
  allocStoredVersion :: uint64
  allocDirtyVersion :: uint64
  activeStripeTail :: "VirtualBlkAddr list"
  allocWbLsidBitmap :: BitMap
  prevSsdLsid :: nat
  currentSsdLsid :: nat
  allocAddrInfo :: AllocatorAddressInfo
  allocInitialized :: bool

section \<open>Operations\<close>

definition AllocatorCtx_Init :: "(nat \<Rightarrow> uint64) \<Rightarrow> AllocatorCtx \<Rightarrow> AllocatorCtx result" where
  "AllocatorCtx_Init mem c =
     (if allocInitialized c then Inr c
      else andThen (BitMap_new mem (numWbStripes (allocAddrInfo c))) (\<lambda>bm.
        Inr (c\<lparr>allocWbLsidBitmap := bm, activeStripeTail := replicate ACTIVE_STRIPE_TAIL_ARRAYLEN UNMAP_VSA,
               currentSsdLsid := STRIPES_PER_SEGMENT - 1, prevSsdLsid := STRIPES_PER_SEGMENT - 1,
               allocHeader := (allocHeader c)\<lparr>ctxVersion := 0\<rparr>, allocStoredVersion := 0, allocDirtyVersion := 0,
               allocInitialized := True\<rparr>)))"

definition AllocatorCtx_Dispose :: "AllocatorCtx \<Rightarrow> AllocatorCtx" where
  "AllocatorCtx_Dispose c = (if \<not> allocInitialized c then c else c\<lparr>allocInitialized := False\<rparr>)"

definition AllocatorCtx_SetNextSsdLsid :: "nat \<Rightarrow> AllocatorCtx \<Rightarrow> AllocatorCtx" where
  "AllocatorCtx_SetNextSsdLsid segId c =
     c\<lparr>prevSsdLsid := currentSsdLsid c, currentSsdLsid := u32 (segId * stripesPerSegment (allocAddrInfo c))\<rparr>"

definition AllocatorCtx_SetPrevSsdLsid :: "nat \<Rightarrow> AllocatorCtx \<Rightarrow> AllocatorCtx" where
  "AllocatorCtx_SetPrevSsdLsid stripe c = c\<lparr>prevSsdLsid := stripe\<rparr>"

definition AllocatorCtx_UpdatePrevLsid :: "AllocatorCtx \<Rightarrow> nat \<times> AllocatorCtx" where
  "AllocatorCtx_UpdatePrevLsid c = (u32 (currentSsdLsid c + 1), c\<lparr>prevSsdLsid := currentSsdLsid c\<rparr>)"

definition AllocatorCtx_SetCurrentSsdLsid :: "nat \<Rightarrow> AllocatorCtx \<Rightarrow> AllocatorCtx" where
  "AllocatorCtx_SetCurrentSsdLsid stripe c = c\<lparr>currentSsdLsid := stripe\<rparr>"

definition AllocatorCtx_RollbackCurrentSsdLsid :: "AllocatorCtx \<Rightarrow> AllocatorCtx" where
  "AllocatorCtx_RollbackCurrentSsdLsid c = c\<lparr>currentSsdLsid := prevSsdLsid c\<rparr>"

definition AllocatorCtx_AllocWbStripe :: "nat \<Rightarrow> AllocatorCtx \<Rightarrow> AllocatorCtx" where
  "AllocatorCtx_AllocWbStripe stripe c =
     c\<lparr>allocWbLsidBitmap := snd (BitMapMutex_SetBit stripe (allocWbLsidBitmap c))\<rparr>"

definition AllocatorCtx_AllocFreeWbStripe :: "AllocatorCtx \<Rightarrow> nat \<times> AllocatorCtx" where
  "AllocatorCtx_AllocFreeWbStripe c =
     (let (stripe, bm) = BitMapMutex_SetNextZeroBit (allocWbLsidBitmap c);
          c1 = c\<lparr>allocWbLsidBitmap := bm\<rparr>
      in (if \<not> BitMap_IsValidBit bm stripe then UNMAP_STRIPE else stripe, c1))"

definition AllocatorCtx_ReleaseWbStripe :: "nat \<Rightarrow> AllocatorCtx \<Rightarrow> AllocatorCtx" where
  "AllocatorCtx_ReleaseWbStripe stripe c =
     c\<lparr>allocWbLsidBitmap := snd (BitMapMutex_ClearBit stripe (allocWbLsidBitmap c))\<rparr>"

definition AllocatorCtx_SetAllocatedWbStripeCount :: "int \<Rightarrow> AllocatorCtx \<Rightarrow> AllocatorCtx" where
  "AllocatorCtx_SetAllocatedWbStripeCount count c =
     c\<lparr>allocWbLsidBitmap := BitMapMutex_SetNumBitsSet (of_int count) (allocWbLsidBitmap c)\<rparr>"

definition AllocatorCtx_GetActiveStripeTail :: "nat \<Rightarrow> AllocatorCtx \<Rightarrow> VirtualBlkAddr result" where
  "AllocatorCtx_GetActiveStripeTail i c =
     (if i < length (activeStripeTail c) then Inr (activeStripeTail c ! i) else Inl OutOfBounds)"

definition AllocatorCtx_SetActiveStripeTail :: "nat \<Rightarrow> VirtualBlkAddr \<Rightarrow> AllocatorCtx \<Rightarrow> AllocatorCtx result" where
  "AllocatorCtx_SetActiveStripeTail i vsa c =
     (if i < length (activeStripeTail c) then Inr (c\<lparr>activeStripeTail := (activeStripeTail c)[i := vsa]\<rparr>)
      else Inl OutOfBounds)"

definition AllocatorCtx_ResetDirtyVersion :: "AllocatorCtx \<Rightarrow> AllocatorCtx" where
  "AllocatorCtx_ResetDirtyVersion c = c\<lparr>allocDirtyVersion := 0\<rparr>"

section \<open>The context file\<close>

text \<open>
  The contents of the four sections of the file. \<open>BeforeFlush\<close> writes the count of set bits into the header of
  the buffer, then copies the bitmap and the tails right after the header, that is before the place of
  their sections; \<open>shifted\<close> is what this leaves in the three sections after the header. \<open>_CopySectionData\<close>
  then copies every section from the context over the buffer, the header included.
\<close>

record AllocatorBuf =
  bufHeader :: AllocatorCtxHeader
  bufCurrentSsdLsid :: nat
  bufBitmap :: "uint64 list"
  bufTails :: "VirtualBlkAddr list"

definition AllocatorCtx_BeforeFlush ::
    "nat \<times> uint64 list \<times> VirtualBlkAddr list \<Rightarrow> AllocatorBuf \<Rightarrow> AllocatorCtx \<Rightarrow> AllocatorBuf \<times> AllocatorCtx" where
  "AllocatorCtx_BeforeFlush shifted buf c =
     (buf\<lparr>bufHeader := (bufHeader buf)\<lparr>numValidWbLsid := ucast (numBitsSet (allocWbLsidBitmap c))\<rparr>,
          bufCurrentSsdLsid := fst shifted, bufBitmap := fst (snd shifted), bufTails := snd (snd shifted)\<rparr>,
      c\<lparr>allocHeader := (allocHeader c)\<lparr>ctxVersion := allocDirtyVersion c\<rparr>, allocDirtyVersion := allocDirtyVersion c + 1\<rparr>)"

definition AllocatorCtx_CopySections :: "AllocatorCtx \<Rightarrow> AllocatorBuf \<Rightarrow> AllocatorBuf" where
  "AllocatorCtx_CopySections c buf =
     buf\<lparr>bufHeader := allocHeader c, bufCurrentSsdLsid := currentSsdLsid c,
         bufBitmap := bmap (allocWbLsidBitmap c), bufTails := activeStripeTail c\<rparr>"

definition AllocatorCtx_PrepareBuffer ::
    "nat \<times> uint64 list \<times> VirtualBlkAddr list \<Rightarrow> AllocatorBuf \<Rightarrow> AllocatorCtx \<Rightarrow> AllocatorBuf \<times> AllocatorCtx" where
  "AllocatorCtx_PrepareBuffer shifted buf c =
     (let (buf1, c1) = AllocatorCtx_BeforeFlush shifted buf c in (AllocatorCtx_CopySections c1 buf1, c1))"

definition AllocatorCtx_FinalizeIo :: "AllocatorBuf \<Rightarrow> AllocatorCtx \<Rightarrow> AllocatorCtx" where
  "AllocatorCtx_FinalizeIo buf c = c\<lparr>allocStoredVersion := ctxVersion (bufHeader buf)\<rparr>"

text \<open>The copy of the loaded sections into the context, and \<open>AfterLoad\<close>.\<close>

definition AllocatorCtx_LoadSections :: "AllocatorBuf \<Rightarrow> AllocatorCtx \<Rightarrow> AllocatorCtx" where
  "AllocatorCtx_LoadSections buf c =
     c\<lparr>allocHeader := bufHeader buf, currentSsdLsid := bufCurrentSsdLsid buf,
       allocWbLsidBitmap := (allocWbLsidBitmap c)\<lparr>bmap := bufBitmap buf\<rparr>, activeStripeTail := bufTails buf\<rparr>"

definition AllocatorCtx_AfterLoad :: "AllocatorBuf \<Rightarrow> AllocatorCtx \<Rightarrow> AllocatorCtx" where
  "AllocatorCtx_AfterLoad buf c =
     c\<lparr>allocStoredVersion := ctxVersion (allocHeader c), allocDirtyVersion := ctxVersion (allocHeader c) + 1,
       allocWbLsidBitmap := BitMapMutex_SetNumBitsSet (ucast (numValidWbLsid (bufHeader buf))) (allocWbLsidBitmap c)\<rparr>"

lemmas allocator_ctx_defs [pos_defs] =
  AllocatorCtx_SetNextSsdLsid_def AllocatorCtx_UpdatePrevLsid_def AllocatorCtx_SetCurrentSsdLsid_def
  AllocatorCtx_AllocFreeWbStripe_def AllocatorCtx_ReleaseWbStripe_def AllocatorCtx_GetActiveStripeTail_def
  AllocatorCtx_SetActiveStripeTail_def

section \<open>Invariant\<close>

text \<open>The bitmap has one bit per write buffer stripe and a right count; there is one tail per volume.\<close>

definition allocctx_inv :: "AllocatorCtx \<Rightarrow> bool" where
  "allocctx_inv c \<longleftrightarrow> bitmap_inv (allocWbLsidBitmap c) \<and>
     numBits (allocWbLsidBitmap c) = numWbStripes (allocAddrInfo c) \<and> numWbStripes (allocAddrInfo c) < UNMAP_STRIPE \<and>
     length (activeStripeTail c) = ACTIVE_STRIPE_TAIL_ARRAYLEN"

abbreviation wbUsed :: "AllocatorCtx \<Rightarrow> nat set" where
  "wbUsed c \<equiv> bits (allocWbLsidBitmap c)"

lemma allocctx_pool: "allocctx_inv c \<Longrightarrow> stripe_pool_inv (allocWbLsidBitmap c)"
  by (simp add: allocctx_inv_def)

lemma AllocFreeWbStripe_full:
  assumes "allocctx_inv c" "wbUsed c = {..<numWbStripes (allocAddrInfo c)}"
  shows "AllocatorCtx_AllocFreeWbStripe c = (UNMAP_STRIPE, c)"
proof -
  have "BitMapMutex_SetNextZeroBit (allocWbLsidBitmap c) = (numBits (allocWbLsidBitmap c), allocWbLsidBitmap c)"
    using wbpool.take_full [OF allocctx_pool [OF assms(1)]] assms by (simp add: allocctx_inv_def)
  then show ?thesis by (simp add: AllocatorCtx_AllocFreeWbStripe_def BitMap_IsValidBit_def)
qed

lemma AllocFreeWbStripe_free:
  assumes inv: "allocctx_inv c" and free: "wbUsed c \<noteq> {..<numWbStripes (allocAddrInfo c)}"
  obtains w c' where "AllocatorCtx_AllocFreeWbStripe c = (w, c')" "w < numWbStripes (allocAddrInfo c)" "w \<notin> wbUsed c"
    "allocctx_inv c'" "wbUsed c' = insert w (wbUsed c)" "c' = c\<lparr>allocWbLsidBitmap := allocWbLsidBitmap c'\<rparr>"
proof -
  let ?bm = "allocWbLsidBitmap c"
  obtain w bm where t: "BitMapMutex_SetNextZeroBit ?bm = (w, bm)" by fastforce
  have n: "numBits ?bm = numWbStripes (allocAddrInfo c)" using inv by (simp add: allocctx_inv_def)
  have "w < numBits ?bm" "w \<notin> bits ?bm" "bits bm = insert w (bits ?bm)" "stripe_pool_inv bm" "numBits bm = numBits ?bm"
    using wbpool.take_free [OF allocctx_pool [OF inv]] wbpool.take_inv [OF allocctx_pool [OF inv]] free n t by simp_all
  then show ?thesis
    using inv n t by (intro that [of w "c\<lparr>allocWbLsidBitmap := bm\<rparr>"])
      (simp_all add: AllocatorCtx_AllocFreeWbStripe_def BitMap_IsValidBit_def allocctx_inv_def)
qed

lemma ReleaseWbStripe_inv [pos_inv]:
  assumes "allocctx_inv c"
  shows "allocctx_inv (AllocatorCtx_ReleaseWbStripe w c)"
    and "wbUsed (AllocatorCtx_ReleaseWbStripe w c) = wbUsed c - {w}"
  using wbpool.release_inv [OF allocctx_pool [OF assms], of w] assms
  by (simp_all add: AllocatorCtx_ReleaseWbStripe_def allocctx_inv_def)

lemma AllocatorCtx_Init_inv [pos_inv]:
  assumes "AllocatorCtx_Init mem c = Inr c'" "\<not> allocInitialized c" "numWbStripes (allocAddrInfo c) < UNMAP_STRIPE"
  shows "allocctx_inv c'" "wbUsed c' = {}" "allocAddrInfo c' = allocAddrInfo c"
    "activeStripeTail c' = replicate 256 UNMAP_VSA" "currentSsdLsid c' = 1023"
proof -
  obtain bm where bm: "BitMap_new mem (numWbStripes (allocAddrInfo c)) = Inr bm"
    and c': "c' = c\<lparr>allocWbLsidBitmap := bm, activeStripeTail := replicate ACTIVE_STRIPE_TAIL_ARRAYLEN UNMAP_VSA,
               currentSsdLsid := STRIPES_PER_SEGMENT - 1, prevSsdLsid := STRIPES_PER_SEGMENT - 1,
               allocHeader := (allocHeader c)\<lparr>ctxVersion := 0\<rparr>, allocStoredVersion := 0, allocDirtyVersion := 0,
               allocInitialized := True\<rparr>"
    using assms(1,2) by (auto simp: AllocatorCtx_Init_def andThen_eq_Inr)
  have "numWbStripes (allocAddrInfo c) \<le> 2 ^ 63" using assms(3) by simp
  from BitMap_new_inv [OF bm this] assms(3) show "allocctx_inv c'" "wbUsed c' = {}"
    by (simp_all add: c' allocctx_inv_def)
  show "allocAddrInfo c' = allocAddrInfo c" "activeStripeTail c' = replicate 256 UNMAP_VSA" "currentSsdLsid c' = 1023"
    by (simp_all add: c')
qed

section \<open>Properties\<close>

text \<open>
  C8. Write buffer stripes: \<open>AllocatorCtx::AllocFreeWbStripe\<close> gives a stripe that was free and marks it, and
  \<open>ReleaseWbStripe\<close> of it gives back the set of stripes in use before; when all stripes are in use it returns
  \<open>UNMAP_STRIPE\<close> and changes nothing.
\<close>

theorem wb_stripe_alloc_release:
  assumes "allocctx_inv c" "AllocatorCtx_AllocFreeWbStripe c = (w, c')"
  shows "if wbUsed c = {..<numWbStripes (allocAddrInfo c)} then w = 2 ^ 30 - 1 \<and> c' = c
    else w < numWbStripes (allocAddrInfo c) \<and> w \<notin> wbUsed c \<and> wbUsed c' = insert w (wbUsed c) \<and>
         wbUsed (AllocatorCtx_ReleaseWbStripe w c') = wbUsed c"
proof (cases "wbUsed c = {..<numWbStripes (allocAddrInfo c)}")
  case True
  with AllocFreeWbStripe_full [OF assms(1)] assms(2) show ?thesis by simp
next
  case False
  obtain v d where "AllocatorCtx_AllocFreeWbStripe c = (v, d)" "v < numWbStripes (allocAddrInfo c)" "v \<notin> wbUsed c"
    "allocctx_inv d" "wbUsed d = insert v (wbUsed c)" using AllocFreeWbStripe_free [OF assms(1) False] by blast
  with assms(2) False show ?thesis by (simp add: ReleaseWbStripe_inv)
qed

definition sampleAlloc :: AllocatorCtx where
  "sampleAlloc = \<lparr>allocHeader = \<lparr>sig = SIG_ALLOCATOR_CTX, ctxVersion = 0, numValidWbLsid = 0\<rparr>,
     allocStoredVersion = 0, allocDirtyVersion = 0, activeStripeTail = replicate 256 UNMAP_VSA,
     allocWbLsidBitmap = usedMap, prevSsdLsid = 1023, currentSsdLsid = 1023,
     allocAddrInfo = \<lparr>blksPerStripe = 4, chunksPerStripe = 2, numWbStripes = 70, numUserAreaStripes = 16,
       blksPerSegment = 16, stripesPerSegment = 4, numUserAreaSegments = 4, isUT = False\<rparr>, allocInitialized = True\<rparr>"

lemma sampleAlloc_inv: "allocctx_inv sampleAlloc"
  by (simp add: allocctx_inv_def sampleAlloc_def usedMap_inv)

theorem wb_stripe_alloc_release_witness:
  "wbUsed (AllocatorCtx_ReleaseWbStripe (fst (AllocatorCtx_AllocFreeWbStripe sampleAlloc))
     (snd (AllocatorCtx_AllocFreeWbStripe sampleAlloc))) = {0, 1}"
proof -
  have u: "wbUsed sampleAlloc = {0, 1}" by (simp add: sampleAlloc_def usedMap_inv)
  have "card {..<70 :: nat} \<noteq> card {0, 1 :: nat}" by simp
  then have "{0, 1} \<noteq> {..<70 :: nat}" by metis
  then show ?thesis
    using wb_stripe_alloc_release [OF sampleAlloc_inv, of "fst (AllocatorCtx_AllocFreeWbStripe sampleAlloc)"
        "snd (AllocatorCtx_AllocFreeWbStripe sampleAlloc)"] u by (simp add: sampleAlloc_def)
qed

text \<open>
  C9. Restart of the allocator: a context stored by \<open>AllocatorFileIo::Flush\<close> and loaded into a freshly
  initialised one has the same stripes in use, the same last stripe and the same tails, but the count of
  stripes in use is the one of the stored header, which the context never updates, and not the one
  \<open>BeforeFlush\<close> wrote into the buffer.
\<close>

theorem allocator_ctx_restart:
  assumes "allocctx_inv c" "allocctx_inv d" "allocAddrInfo d = allocAddrInfo c"
    "AllocatorCtx_PrepareBuffer shifted buf c = (buf', c')"
    "d' = AllocatorCtx_AfterLoad buf' (AllocatorCtx_LoadSections buf' d)"
  shows "wbUsed d' = wbUsed c \<and> currentSsdLsid d' = currentSsdLsid c \<and> activeStripeTail d' = activeStripeTail c \<and>
    allocStoredVersion d' = allocDirtyVersion c \<and>
    numBitsSet (allocWbLsidBitmap d') = ucast (numValidWbLsid (allocHeader c))"
proof -
  have wf: "bitmap_wf (allocWbLsidBitmap c)" "bitmap_wf (allocWbLsidBitmap d)"
    "numBits (allocWbLsidBitmap d) = numBits (allocWbLsidBitmap c)"
    using assms(1-3) by (simp_all add: allocctx_inv_def bitmap_inv_def)
  have eq: "allocWbLsidBitmap d' = (allocWbLsidBitmap d)\<lparr>bmap := bmap (allocWbLsidBitmap c),
      numBitsSet := ucast (numValidWbLsid (allocHeader c))\<rparr>"
    using assms(4,5) by (auto simp: AllocatorCtx_PrepareBuffer_def AllocatorCtx_BeforeFlush_def
        AllocatorCtx_CopySections_def AllocatorCtx_AfterLoad_def AllocatorCtx_LoadSections_def BitMap_SetNumBitsSet_def)
  have "BitMap_IsSetBit (allocWbLsidBitmap d') i = BitMap_IsSetBit (allocWbLsidBitmap c) i"
    if "i < numBits (allocWbLsidBitmap c)" for i
    using wf_row [OF wf(1) that] unfolding eq IsSetBit_iff by (simp add: mapWord_def)
  then have "wbUsed d' = wbUsed c" using wf(3) by (auto simp: bits_def eq)
  with eq show ?thesis
    using assms(4,5) by (auto simp: AllocatorCtx_PrepareBuffer_def AllocatorCtx_BeforeFlush_def
        AllocatorCtx_CopySections_def AllocatorCtx_AfterLoad_def AllocatorCtx_LoadSections_def)
qed

definition emptyBuf :: AllocatorBuf where
  "emptyBuf = \<lparr>bufHeader = \<lparr>sig = 0, ctxVersion = 0, numValidWbLsid = 0\<rparr>, bufCurrentSsdLsid = 0, bufBitmap = [], bufTails = []\<rparr>"

theorem allocator_ctx_restart_witness:
  "\<exists>d'. wbUsed d' = {0, 1} \<and> numBitsSet (allocWbLsidBitmap d') = 0"
proof -
  obtain buf' c' where p: "AllocatorCtx_PrepareBuffer (0, [], []) emptyBuf sampleAlloc = (buf', c')" by fastforce
  from allocator_ctx_restart [OF sampleAlloc_inv sampleAlloc_inv refl p refl] show ?thesis
    by (auto simp: sampleAlloc_def usedMap_inv)
qed

end
