(* ===== verification/AllocStatus.thy ===== *)
theory AllocStatus
  imports AllocatorCtx
begin

text \<open>
  Two small states the allocator consults: the mode of garbage collection
  (\<^verbatim>\<open>src/allocator/context_manager/gc_ctx/gc_ctx.cpp\<close>) and the flags that stop block allocation
  (\<^verbatim>\<open>src/allocator/context_manager/block_allocation_status.cpp\<close>).
\<close>

section \<open>Mode of garbage collection\<close>

datatype GcMode = MODE_NO_GC | MODE_NORMAL_GC | MODE_URGENT_GC

record GcCtx =
  normalGcthreshold :: int
  urgentGcthreshold :: int
  curGcMode :: GcMode

definition GcCtx_new :: GcCtx where
  "GcCtx_new = \<lparr>normalGcthreshold = 20, urgentGcthreshold = 5, curGcMode = MODE_NO_GC\<rparr>"

definition GcCtx_SetNormalGcThreshold :: "int \<Rightarrow> GcCtx \<Rightarrow> GcCtx" where
  "GcCtx_SetNormalGcThreshold t g = g\<lparr>normalGcthreshold := t\<rparr>"

definition GcCtx_SetUrgentThreshold :: "int \<Rightarrow> GcCtx \<Rightarrow> GcCtx" where
  "GcCtx_SetUrgentThreshold t g = g\<lparr>urgentGcthreshold := t\<rparr>"

definition GcCtx_GetCurrentGcMode :: "int \<Rightarrow> GcCtx \<Rightarrow> GcMode \<times> GcCtx" where
  "GcCtx_GetCurrentGcMode numFreeSegments g =
     (let mode = (if urgentGcthreshold g \<ge> numFreeSegments then MODE_URGENT_GC
                  else if normalGcthreshold g \<ge> numFreeSegments then MODE_NORMAL_GC
                  else MODE_NO_GC)
      in (mode, g\<lparr>curGcMode := mode\<rparr>))"

text \<open>Fewer free segments never give a less urgent mode.\<close>

fun urgency :: "GcMode \<Rightarrow> nat" where
  "urgency MODE_NO_GC = 0"
| "urgency MODE_NORMAL_GC = 1"
| "urgency MODE_URGENT_GC = 2"

lemma GcMode_mono:
  "m \<le> n \<Longrightarrow> urgency (fst (GcCtx_GetCurrentGcMode n g)) \<le> urgency (fst (GcCtx_GetCurrentGcMode m g))"
  by (simp add: GcCtx_GetCurrentGcMode_def Let_def)

lemma GcMode_urgent [simp]:
  "fst (GcCtx_GetCurrentGcMode n g) = MODE_URGENT_GC \<longleftrightarrow> n \<le> urgentGcthreshold g"
  by (simp add: GcCtx_GetCurrentGcMode_def Let_def)

lemma GcMode_frame [pos_frame, simp]:
  "normalGcthreshold (snd (GcCtx_GetCurrentGcMode n g)) = normalGcthreshold g"
  "urgentGcthreshold (snd (GcCtx_GetCurrentGcMode n g)) = urgentGcthreshold g"
  by (simp_all add: GcCtx_GetCurrentGcMode_def Let_def)

section \<open>Flags of block allocation\<close>

record BlockAllocationStatus =
  blkAllocProhibited :: "bool list"
  userBlkAllocProhibited :: bool

definition BlockAllocationStatus_new :: BlockAllocationStatus where
  "BlockAllocationStatus_new = \<lparr>blkAllocProhibited = replicate MAX_VOLUME_COUNT False, userBlkAllocProhibited = False\<rparr>"

definition BlockAllocationStatus_IsUserBlockAllocationProhibited :: "nat \<Rightarrow> BlockAllocationStatus \<Rightarrow> bool result" where
  "BlockAllocationStatus_IsUserBlockAllocationProhibited vol b =
     (if vol < length (blkAllocProhibited b) then Inr (blkAllocProhibited b ! vol \<or> userBlkAllocProhibited b)
      else Inl OutOfBounds)"

definition BlockAllocationStatus_IsBlockAllocationProhibited :: "nat \<Rightarrow> BlockAllocationStatus \<Rightarrow> bool result" where
  "BlockAllocationStatus_IsBlockAllocationProhibited vol b =
     (if vol < length (blkAllocProhibited b) then Inr (blkAllocProhibited b ! vol) else Inl OutOfBounds)"

definition BlockAllocationStatus_PermitUserBlockAllocation :: "BlockAllocationStatus \<Rightarrow> BlockAllocationStatus" where
  "BlockAllocationStatus_PermitUserBlockAllocation b = b\<lparr>userBlkAllocProhibited := False\<rparr>"

definition BlockAllocationStatus_PermitBlockAllocation :: "BlockAllocationStatus \<Rightarrow> BlockAllocationStatus" where
  "BlockAllocationStatus_PermitBlockAllocation b =
     fold (\<lambda>i b. b\<lparr>blkAllocProhibited := (blkAllocProhibited b)[i := False]\<rparr>) [0..<MAX_VOLUME_COUNT] b"

definition BlockAllocationStatus_PermitBlockAllocationVol :: "nat \<Rightarrow> BlockAllocationStatus \<Rightarrow> BlockAllocationStatus result" where
  "BlockAllocationStatus_PermitBlockAllocationVol vol b =
     (if vol < length (blkAllocProhibited b) then Inr (b\<lparr>blkAllocProhibited := (blkAllocProhibited b)[vol := False]\<rparr>)
      else Inl OutOfBounds)"

definition BlockAllocationStatus_ProhibitUserBlockAllocation :: "BlockAllocationStatus \<Rightarrow> BlockAllocationStatus" where
  "BlockAllocationStatus_ProhibitUserBlockAllocation b = b\<lparr>userBlkAllocProhibited := True\<rparr>"

text \<open>
  The loop over the volumes spins on a flag that is set until another thread clears it; on its own the
  call returns only if no flag is set. \<open>None\<close> is a call that does not return.
\<close>

fun ProhibitBlockAllocation_from :: "nat list \<Rightarrow> BlockAllocationStatus \<Rightarrow> BlockAllocationStatus option" where
  "ProhibitBlockAllocation_from [] b = Some b"
| "ProhibitBlockAllocation_from (i # is) b =
     (if blkAllocProhibited b ! i then None
      else ProhibitBlockAllocation_from is (b\<lparr>blkAllocProhibited := (blkAllocProhibited b)[i := True]\<rparr>))"

definition BlockAllocationStatus_ProhibitBlockAllocation :: "BlockAllocationStatus \<Rightarrow> BlockAllocationStatus option" where
  "BlockAllocationStatus_ProhibitBlockAllocation b = ProhibitBlockAllocation_from [0..<MAX_VOLUME_COUNT] b"

definition BlockAllocationStatus_TryProhibitBlockAllocation ::
    "nat \<Rightarrow> BlockAllocationStatus \<Rightarrow> (bool \<times> BlockAllocationStatus) result" where
  "BlockAllocationStatus_TryProhibitBlockAllocation vol b =
     (if vol < length (blkAllocProhibited b)
      then Inr (\<not> blkAllocProhibited b ! vol, b\<lparr>blkAllocProhibited := (blkAllocProhibited b)[vol := True]\<rparr>)
      else Inl OutOfBounds)"

lemma PermitBlockAllocation_all:
  assumes "length (blkAllocProhibited b) = MAX_VOLUME_COUNT"
  shows "BlockAllocationStatus_PermitBlockAllocation b = b\<lparr>blkAllocProhibited := replicate MAX_VOLUME_COUNT False\<rparr>"
proof -
  have "n \<le> length (blkAllocProhibited b) \<Longrightarrow>
      fold (\<lambda>i b. b\<lparr>blkAllocProhibited := (blkAllocProhibited b)[i := False]\<rparr>) [0..<n] b =
      b\<lparr>blkAllocProhibited := replicate n False @ drop n (blkAllocProhibited b)\<rparr>" for n
  proof (induction n)
    case (Suc n)
    then have d: "drop n (blkAllocProhibited b) = blkAllocProhibited b ! n # drop (Suc n) (blkAllocProhibited b)"
      by (simp add: Cons_nth_drop_Suc)
    have "fold (\<lambda>i b. b\<lparr>blkAllocProhibited := (blkAllocProhibited b)[i := False]\<rparr>) [0..<Suc n] b =
      b\<lparr>blkAllocProhibited := (replicate n False @ drop n (blkAllocProhibited b))[n := False]\<rparr>"
      using Suc by simp
    also have "\<dots> = b\<lparr>blkAllocProhibited := (replicate n False @ [False]) @ drop (Suc n) (blkAllocProhibited b)\<rparr>"
      unfolding d by (simp add: list_update_append)
    finally show ?case by (simp add: replicate_append_same)
  qed simp
  from this [of MAX_VOLUME_COUNT] show ?thesis
    unfolding BlockAllocationStatus_PermitBlockAllocation_def using assms by simp
qed

lemma ProhibitBlockAllocation_from_iff:
  "distinct is \<Longrightarrow> \<forall>i\<in>set is. i < length (blkAllocProhibited b) \<Longrightarrow>
   (\<exists>b'. ProhibitBlockAllocation_from is b = Some b') \<longleftrightarrow> (\<forall>i\<in>set is. \<not> blkAllocProhibited b ! i)"
proof (induction "is" arbitrary: b)
  case (Cons i "is")
  have "(\<forall>j\<in>set is. \<not> (blkAllocProhibited b)[i := True] ! j) \<longleftrightarrow> (\<forall>j\<in>set is. \<not> blkAllocProhibited b ! j)"
    using Cons.prems by (auto simp: nth_list_update)
  with Cons show ?case by simp
qed simp

end
