(* ===== verification/ContextManager.thy ===== *)
theory ContextManager
  imports SegmentCtx AllocatorCtx AllocStatus
begin

text \<open>
  The owner of the allocator contexts (\<^verbatim>\<open>src/allocator/context_manager/context_manager.cpp\<close>) and the
  operations the journal replays on them (\<^verbatim>\<open>context_replayer.cpp\<close>). Telemetry and the report of the number
  of free segments to the quality of service component have no effect here.
\<close>

section \<open>State\<close>

record ContextManager =
  allocatorCtx :: AllocatorCtx
  segmentCtx :: SegmentCtx
  gcCtx :: GcCtx
  blockAllocStatus :: BlockAllocationStatus
  mgrCurGcMode :: GcMode
  mgrPrevGcMode :: GcMode

abbreviation mgrInfo :: "ContextManager \<Rightarrow> AllocatorAddressInfo" where
  "mgrInfo m \<equiv> addrInfo (segmentCtx m)"

section \<open>Operations of ContextManager\<close>

definition onSegmentCtx :: "(SegmentCtx \<Rightarrow> ('a \<times> SegmentCtx) result) \<Rightarrow> ContextManager \<Rightarrow> ('a \<times> ContextManager) result" where
  "onSegmentCtx f m = andThen (f (segmentCtx m)) (\<lambda>(a, c). Inr (a, m\<lparr>segmentCtx := c\<rparr>))"

definition ContextManager_GetCurrentGcMode :: "ContextManager \<Rightarrow> GcMode \<times> ContextManager" where
  "ContextManager_GetCurrentGcMode m =
     (let numFreeSegments = sint (SegmentCtx_GetNumOfFreeSegment (segmentCtx m));
          (mode, g) = GcCtx_GetCurrentGcMode numFreeSegments (gcCtx m)
      in (mode, m\<lparr>mgrPrevGcMode := mgrCurGcMode m, mgrCurGcMode := mode, gcCtx := g\<rparr>))"

definition ContextManager_NotifySegmentFreed :: "ContextManager \<Rightarrow> ContextManager" where
  "ContextManager_NotifySegmentFreed m =
     (let (mode, m1) = ContextManager_GetCurrentGcMode m
      in if mode \<noteq> MODE_URGENT_GC
         then m1\<lparr>blockAllocStatus := BlockAllocationStatus_PermitUserBlockAllocation (blockAllocStatus m1)\<rparr>
         else m1)"

definition ContextManager_UpdateOccupiedStripeCount ::
    "(RebuildCtx \<Rightarrow> int) \<Rightarrow> nat \<Rightarrow> ContextManager \<Rightarrow> ContextManager result" where
  "ContextManager_UpdateOccupiedStripeCount io lsid m =
     (let segId = lsid div stripesPerSegment (mgrInfo m)
      in andThen (onSegmentCtx (SegmentCtx_IncreaseOccupiedStripeCount io segId) m) (\<lambda>(segmentFreed, m1).
           Inr (if segmentFreed then ContextManager_NotifySegmentFreed m1 else m1)))"

definition ContextManager_IncreaseValidBlockCount :: "nat \<Rightarrow> uint32 \<Rightarrow> ContextManager \<Rightarrow> ContextManager result" where
  "ContextManager_IncreaseValidBlockCount segId count m =
     andThen (SegmentCtx_IncreaseValidBlockCount segId count (segmentCtx m)) (\<lambda>c. Inr (m\<lparr>segmentCtx := c\<rparr>))"

definition ContextManager_DecreaseValidBlockCount ::
    "(RebuildCtx \<Rightarrow> int) \<Rightarrow> nat \<Rightarrow> uint32 \<Rightarrow> ContextManager \<Rightarrow> ContextManager result" where
  "ContextManager_DecreaseValidBlockCount io segId count m =
     andThen (onSegmentCtx (SegmentCtx_DecreaseValidBlockCount io segId count) m) (\<lambda>(segmentFreed, m1).
       Inr (if segmentFreed then ContextManager_NotifySegmentFreed m1 else m1))"

definition ContextManager_AllocateFreeSegment :: "ContextManager \<Rightarrow> (nat \<times> ContextManager) result option" where
  "ContextManager_AllocateFreeSegment m =
     map_option (\<lambda>r. andThen r (\<lambda>(s, c). Inr (s, m\<lparr>segmentCtx := c\<rparr>))) (SegmentCtx_AllocateFreeSegment (segmentCtx m))"

definition ContextManager_AllocateGCVictimSegment :: "ContextManager \<Rightarrow> (nat \<times> ContextManager) result" where
  "ContextManager_AllocateGCVictimSegment m = onSegmentCtx SegmentCtx_AllocateGCVictimSegment m"

definition ContextManager_GetGcThreshold :: "GcMode \<Rightarrow> ContextManager \<Rightarrow> int" where
  "ContextManager_GetGcThreshold mode m =
     (if mode = MODE_NORMAL_GC then normalGcthreshold (gcCtx m) else urgentGcthreshold (gcCtx m))"

definition ContextManager_SetNextSsdLsid :: "ContextManager \<Rightarrow> (int \<times> ContextManager) result option" where
  "ContextManager_SetNextSsdLsid m =
     map_option (\<lambda>r. andThen r (\<lambda>(segId, m1).
         Inr (if segId = UNMAP_SEGMENT then (- ALLOCATOR_NO_FREE_SEGMENT, m1)
              else (0, m1\<lparr>allocatorCtx := AllocatorCtx_SetNextSsdLsid segId (allocatorCtx m1)\<rparr>))))
       (ContextManager_AllocateFreeSegment m)"

definition ContextManager_AllocateRebuildTargetSegment ::
    "(RebuildCtx \<Rightarrow> int) \<Rightarrow> ContextManager \<Rightarrow> (nat \<times> ContextManager) result option" where
  "ContextManager_AllocateRebuildTargetSegment io m =
     map_option (\<lambda>r. andThen r (\<lambda>(s, c). Inr (s, m\<lparr>segmentCtx := c\<rparr>)))
       (SegmentCtx_GetRebuildTargetSegment io (segmentCtx m))"

definition ContextManager_NeedRebuildAgain :: "ContextManager \<Rightarrow> (bool \<times> ContextManager) result" where
  "ContextManager_NeedRebuildAgain m = onSegmentCtx SegmentCtx_LoadRebuildList m"

definition ContextManager_ReleaseRebuildSegment ::
    "(RebuildCtx \<Rightarrow> int) \<Rightarrow> nat \<Rightarrow> ContextManager \<Rightarrow> (int \<times> ContextManager) result" where
  "ContextManager_ReleaseRebuildSegment io segId m = onSegmentCtx (SegmentCtx_SetRebuildCompleted io segId) m"

definition ContextManager_MakeRebuildTargetSegmentList ::
    "(RebuildCtx \<Rightarrow> int) \<Rightarrow> ContextManager \<Rightarrow> (int \<times> nat set \<times> ContextManager) result" where
  "ContextManager_MakeRebuildTargetSegmentList io m =
     andThen (SegmentCtx_MakeRebuildTarget io (segmentCtx m)) (\<lambda>(ret, segs, c). Inr (ret, segs, m\<lparr>segmentCtx := c\<rparr>))"

definition ContextManager_StopRebuilding :: "(RebuildCtx \<Rightarrow> int) \<Rightarrow> ContextManager \<Rightarrow> (int \<times> ContextManager) result" where
  "ContextManager_StopRebuilding io m = onSegmentCtx (SegmentCtx_StopRebuilding io) m"

text \<open>\<open>Init\<close> and \<open>Dispose\<close>, without the files (see \<open>ContextIoManager\<close>).\<close>

definition ContextManager_Init :: "(nat \<Rightarrow> uint64) \<Rightarrow> ContextManager \<Rightarrow> ContextManager result" where
  "ContextManager_Init mem m =
     andThen (AllocatorCtx_Init mem (allocatorCtx m)) (\<lambda>a.
     andThen (SegmentCtx_Init (segmentCtx m)) (\<lambda>c.
       Inr (m\<lparr>allocatorCtx := a,
              segmentCtx := c\<lparr>rebuildCtx := RebuildCtx_Init (numUserAreaSegments (addrInfo c)) (rebuildCtx c)\<rparr>\<rparr>)))"

definition ContextManager_Dispose :: "ContextManager \<Rightarrow> ContextManager" where
  "ContextManager_Dispose m =
     (let c = SegmentCtx_Dispose (segmentCtx m)
      in m\<lparr>segmentCtx := c\<lparr>rebuildCtx := RebuildCtx_Dispose (rebuildCtx c)\<rparr>,
           allocatorCtx := AllocatorCtx_Dispose (allocatorCtx m)\<rparr>)"

section \<open>Operations of ContextReplayer\<close>

datatype FileOwner = SEGMENT_CTX | ALLOCATOR_CTX | REBUILD_CTX

definition ContextReplayer_ResetDirtyContextVersion :: "FileOwner \<Rightarrow> ContextManager \<Rightarrow> ContextManager" where
  "ContextReplayer_ResetDirtyContextVersion owner m =
     (if owner = ALLOCATOR_CTX then m\<lparr>allocatorCtx := AllocatorCtx_ResetDirtyVersion (allocatorCtx m)\<rparr>
      else if owner = SEGMENT_CTX then m\<lparr>segmentCtx := SegmentCtx_ResetDirtyVersion (segmentCtx m)\<rparr>
      else m)"

definition ContextReplayer_ReplaySsdLsid :: "nat \<Rightarrow> ContextManager \<Rightarrow> ContextManager" where
  "ContextReplayer_ReplaySsdLsid lsid m = m\<lparr>allocatorCtx := AllocatorCtx_SetCurrentSsdLsid lsid (allocatorCtx m)\<rparr>"

definition ContextReplayer_ReplaySegmentAllocation :: "nat \<Rightarrow> ContextManager \<Rightarrow> ContextManager result" where
  "ContextReplayer_ReplaySegmentAllocation userLsid m =
     (let segId = userLsid div stripesPerSegment (mgrInfo m); infos = segmentInfos (segmentCtx m)
      in if \<not> segId < length infos then Inl OutOfBounds
         else if state (infos ! segId) = FREE
         then andThen (SegmentCtx_AllocateSegment segId (segmentCtx m)) (\<lambda>c. Inr (m\<lparr>segmentCtx := c\<rparr>))
         else Inr m)"

definition ContextReplayer_ReplayStripeAllocation :: "nat \<Rightarrow> nat \<Rightarrow> ContextManager \<Rightarrow> ContextManager result" where
  "ContextReplayer_ReplayStripeAllocation wbLsid userLsid m =
     andThen (assertion (wbLsid \<noteq> UNMAP_STRIPE)) (\<lambda>_.
       ContextReplayer_ReplaySegmentAllocation userLsid
         (m\<lparr>allocatorCtx := AllocatorCtx_AllocWbStripe wbLsid (allocatorCtx m)\<rparr>))"

definition ContextReplayer_ReplayStripeRelease :: "nat \<Rightarrow> ContextManager \<Rightarrow> ContextManager result" where
  "ContextReplayer_ReplayStripeRelease wbLsid m =
     andThen (assertion (wbLsid \<noteq> UNMAP_STRIPE)) (\<lambda>_.
       Inr (m\<lparr>allocatorCtx := AllocatorCtx_ReleaseWbStripe wbLsid (allocatorCtx m)\<rparr>))"

definition ContextReplayer_ReplayStripeFlushed ::
    "(RebuildCtx \<Rightarrow> int) \<Rightarrow> nat \<Rightarrow> ContextManager \<Rightarrow> ContextManager result" where
  "ContextReplayer_ReplayStripeFlushed io userLsid m =
     (let segId = userLsid div stripesPerSegment (mgrInfo m)
      in andThen (onSegmentCtx (SegmentCtx_IncreaseOccupiedStripeCount io segId) m) (\<lambda>(_, m1). Inr m1))"

definition ContextReplayer_ResetActiveStripeTail :: "nat \<Rightarrow> ContextManager \<Rightarrow> ContextManager result" where
  "ContextReplayer_ResetActiveStripeTail index m =
     andThen (AllocatorCtx_SetActiveStripeTail index UNMAP_VSA (allocatorCtx m)) (\<lambda>a. Inr (m\<lparr>allocatorCtx := a\<rparr>))"

definition ContextReplayer_ResetSegmentsStates :: "ContextManager \<Rightarrow> ContextManager result" where
  "ContextReplayer_ResetSegmentsStates m =
     andThen (SegmentCtx_ResetSegmentsStates (segmentCtx m)) (\<lambda>c. Inr (m\<lparr>segmentCtx := c\<rparr>))"

lemma replay_stripe_idempotent_alloc:
  assumes "bitmap_wf (allocWbLsidBitmap a)" "w < numBits (allocWbLsidBitmap a)"
  shows "AllocatorCtx_AllocWbStripe w (AllocatorCtx_AllocWbStripe w a) = AllocatorCtx_AllocWbStripe w a"
proof -
  have "BitMap_IsSetBit (snd (BitMap_SetBit w (allocWbLsidBitmap a))) w" using SetBit_IsSetBit [OF assms] by simp
  then have "snd (BitMap_SetBit w (snd (BitMap_SetBit w (allocWbLsidBitmap a)))) = snd (BitMap_SetBit w (allocWbLsidBitmap a))"
    using assms by (simp add: BitMap_SetBit_def [of w "snd _"] BitMap_IsValidBit_def)
  then show ?thesis by (simp add: AllocatorCtx_AllocWbStripe_def)
qed

section \<open>Segments after a replay\<close>

text \<open>\<open>ResetSegmentsStates\<close>: victims and filled segments become \<open>SSD\<close> or, when empty, \<open>FREE\<close>.\<close>

definition resetInfo :: "SegmentInfo \<Rightarrow> SegmentInfo" where
  "resetInfo si = (if state si = VICTIM \<or> state si = SSD
     then if validBlockCount si = 0 then SegmentInfo_new else si\<lparr>state := SSD\<rparr> else si)"

lemma ResetSegmentsStates_eq:
  assumes len: "length (segmentInfos c) = numSegs c"
  shows "SegmentCtx_ResetSegmentsStates c =
    (let c1 = c\<lparr>segmentInfos := map resetInfo (segmentInfos c)\<rparr>
     in Inr (c1\<lparr>freeList := (freeList c)\<lparr>segments := freeSegs c1, numSegments := of_nat (card (freeSegs c1))\<rparr>\<rparr>))"
proof -
  let ?f = "\<lambda>segId r. andThen r (\<lambda>c.
         if segId < length (segmentInfos c)
         then if state (segmentInfos c ! segId) = VICTIM \<or> state (segmentInfos c ! segId) = SSD
              then andThen (onInfo segId SegmentInfo_MoveToSsdStateOrFreeStateIfItBecomesEmpty c) (\<lambda>(_, c). Inr c)
              else Inr c
         else Inl OutOfBounds)"
  have "n \<le> length (segmentInfos c) \<Longrightarrow> fold ?f [0..<n] (Inr c) =
      Inr (c\<lparr>segmentInfos := map resetInfo (take n (segmentInfos c)) @ drop n (segmentInfos c)\<rparr>)" for n
  proof (induction n)
    case (Suc n)
    let ?c = "c\<lparr>segmentInfos := map resetInfo (take n (segmentInfos c)) @ drop n (segmentInfos c)\<rparr>"
    let ?si = "segmentInfos c ! n"
    have d: "drop n (segmentInfos c) = ?si # drop (Suc n) (segmentInfos c)"
      using Suc.prems by (simp add: Cons_nth_drop_Suc)
    have nth: "segmentInfos ?c ! n = ?si" "n < length (segmentInfos ?c)" using Suc.prems by (simp_all add: nth_append)
    have upd: "(segmentInfos ?c)[n := x] = map resetInfo (take n (segmentInfos c)) @ x # drop (Suc n) (segmentInfos c)" for x
      unfolding d using Suc.prems by (simp add: list_update_append)
    have same: "(segmentInfos ?c)[n := ?si] = segmentInfos ?c" using nth(1) by (metis list_update_id)
    have "?f n (Inr ?c) = Inr (?c\<lparr>segmentInfos := (segmentInfos ?c)[n := resetInfo ?si]\<rparr>)"
    proof (cases "state ?si = VICTIM \<or> state ?si = SSD")
      case True
      with nth show ?thesis by (auto simp: onInfo_def MoveToSsdOrFree_eq resetInfo_def)
    next
      case False
      then have r: "resetInfo ?si = ?si" by (simp add: resetInfo_def)
      have "?f n (Inr ?c) = Inr ?c" using nth False by simp
      then show ?thesis unfolding r same by simp
    qed
    then have "fold ?f [0..<Suc n] (Inr c) = Inr (?c\<lparr>segmentInfos := (segmentInfos ?c)[n := resetInfo ?si]\<rparr>)"
      using Suc by simp
    then show ?case unfolding upd using Suc.prems by (simp add: take_Suc_conv_app_nth)
  qed simp
  from this [of "numSegs c"] have "fold ?f [0..<numSegs c] (Inr c) = Inr (c\<lparr>segmentInfos := map resetInfo (segmentInfos c)\<rparr>)"
    using len by simp
  moreover have "numSegs (c\<lparr>segmentInfos := map resetInfo (segmentInfos c)\<rparr>) =
      length (segmentInfos (c\<lparr>segmentInfos := map resetInfo (segmentInfos c)\<rparr>))" using len by simp
  from RebuildFreeSegmentList_eq [OF this]
  have "SegmentCtx_RebuildFreeSegmentList (c\<lparr>segmentInfos := map resetInfo (segmentInfos c)\<rparr>) =
    (let c1 = c\<lparr>segmentInfos := map resetInfo (segmentInfos c)\<rparr>
     in Inr (c1\<lparr>freeList := (freeList c)\<lparr>segments := freeSegs c1, numSegments := of_nat (card (freeSegs c1))\<rparr>\<rparr>))"
    by (simp add: Let_def)
  ultimately show ?thesis by (simp add: SegmentCtx_ResetSegmentsStates_def)
qed

section \<open>Properties\<close>

text \<open>
  C12. End of a journal replay: \<open>ContextReplayer::ResetSegmentsStates\<close> returns; afterwards no segment is a victim,
  a segment that was a victim or filled and has no valid block is free, every other segment keeps its
  counts, and the free list holds exactly the free segments with the right count.
\<close>

theorem replay_reset_segments:
  assumes "length (segmentInfos (segmentCtx m)) = numSegs (segmentCtx m)"
  shows "\<exists>m'. ContextReplayer_ResetSegmentsStates m = Inr m' \<and>
    (\<forall>i. i < numSegs (segmentCtx m) \<longrightarrow>
       segmentInfos (segmentCtx m') ! i = resetInfo (segmentInfos (segmentCtx m) ! i) \<and>
       state (segmentInfos (segmentCtx m') ! i) \<noteq> VICTIM) \<and>
    segments (freeList (segmentCtx m')) = freeSegs (segmentCtx m') \<and>
    unat (SegmentCtx_GetNumOfFreeSegment (segmentCtx m')) = card (freeSegs (segmentCtx m')) mod 2 ^ 32"
proof -
  let ?c = "segmentCtx m"
  let ?c1 = "?c\<lparr>segmentInfos := map resetInfo (segmentInfos ?c)\<rparr>"
  let ?c2 = "?c1\<lparr>freeList := (freeList ?c)\<lparr>segments := freeSegs ?c1, numSegments := of_nat (card (freeSegs ?c1))\<rparr>\<rparr>"
  have "ContextReplayer_ResetSegmentsStates m = Inr (m\<lparr>segmentCtx := ?c2\<rparr>)"
    by (simp add: ContextReplayer_ResetSegmentsStates_def ResetSegmentsStates_eq [OF assms] Let_def)
  moreover have "freeSegs ?c2 = freeSegs ?c1" by (rule freeSegs_cong) simp
  moreover have "state (resetInfo si) \<noteq> VICTIM" for si by (simp add: resetInfo_def SegmentInfo_new_def)
  ultimately show ?thesis
    using assms by (auto simp: SegmentCtx_GetNumOfFreeSegment_def SegmentList_GetNumSegments_def unat_of_nat take_bit_eq_mod)
qed

definition replayCtx :: ContextManager where
  "replayCtx = \<lparr>allocatorCtx = sampleAlloc,
     segmentCtx = (SegmentCtx_new RebuildCtx_new sampleInfo)\<lparr>segmentInfos := replicate 4
       \<lparr>validBlockCount = 0, occupiedStripeCount = 4, state = VICTIM\<rparr>\<rparr>,
     gcCtx = GcCtx_new, blockAllocStatus = BlockAllocationStatus_new, mgrCurGcMode = MODE_NO_GC, mgrPrevGcMode = MODE_NO_GC\<rparr>"

theorem replay_reset_segments_witness:
  "\<exists>m'. ContextReplayer_ResetSegmentsStates replayCtx = Inr m' \<and> state (segmentInfos (segmentCtx m') ! 0) \<noteq> VICTIM"
  using replay_reset_segments [of replayCtx] by (auto simp: replayCtx_def SegmentCtx_new_def sampleInfo_def
      resetInfo_def SegmentInfo_new_def)

end
