(* ===== verification/ContextIoManager.thy ===== *)
theory ContextIoManager
  imports AllocatorFileIo AddressTypes
begin

text \<open>
  The flush of the allocator contexts (\<^verbatim>\<open>src/allocator/context_manager/context_io_manager.cpp\<close>): the segment
  and the allocator context are written one after the other, each completion counts the files still
  being written, and the last one schedules the callback of the checkpoint.

  \<open>FlushContexts\<close> is written as its steps, so that completions, which run in other threads, can come between
  them. The parts of \<open>Init\<close> and \<open>WaitPendingIo\<close> that only wait are not modelled.
\<close>

section \<open>State\<close>

record ('b, 'e) ContextIoManager =
  segmentFile :: "'b FileIo"
  allocatorFile :: "'b FileIo"
  flushInProgress :: bool
  flushCallback :: "'e option"
  scheduled :: "'e list"

definition ContextIoManager_GetNumFilesReading :: "('b, 'e) ContextIoManager \<Rightarrow> int" where
  "ContextIoManager_GetNumFilesReading m = numFilesReading (segmentFile m) + numFilesReading (allocatorFile m)"

definition ContextIoManager_GetNumFilesFlushing :: "('b, 'e) ContextIoManager \<Rightarrow> int" where
  "ContextIoManager_GetNumFilesFlushing m = numFilesFlushing (segmentFile m) + numFilesFlushing (allocatorFile m)"

section \<open>Operations\<close>

definition flushSegmentFile :: "int \<Rightarrow> 'b \<Rightarrow> ('b, 'e) ContextIoManager \<Rightarrow> int \<times> ('b, 'e) ContextIoManager" where
  "flushSegmentFile io buf m =
     (let (ret, f) = AllocatorFileIo_Flush io buf (segmentFile m) in (ret, m\<lparr>segmentFile := f\<rparr>))"

definition flushAllocatorFile :: "int \<Rightarrow> 'b \<Rightarrow> ('b, 'e) ContextIoManager \<Rightarrow> int \<times> ('b, 'e) ContextIoManager" where
  "flushAllocatorFile io buf m =
     (let (ret, f) = AllocatorFileIo_Flush io buf (allocatorFile m) in (ret, m\<lparr>allocatorFile := f\<rparr>))"

definition flushBegin :: "'e option \<Rightarrow> ('b, 'e) ContextIoManager \<Rightarrow> bool \<times> ('b, 'e) ContextIoManager" where
  "flushBegin callback m =
     (if flushInProgress m then (False, m)
      else (True, m\<lparr>flushInProgress := True, flushCallback := callback\<rparr>))"

text \<open>The whole call when no completion comes between its steps; \<open>segIo\<close> and \<open>allocIo\<close> are the answers of the files.\<close>

definition ContextIoManager_FlushContexts ::
    "'e option \<Rightarrow> int \<Rightarrow> 'b \<Rightarrow> int \<Rightarrow> 'b \<Rightarrow> ('b, 'e) ContextIoManager \<Rightarrow> int \<times> ('b, 'e) ContextIoManager" where
  "ContextIoManager_FlushContexts callback segIo segBuf allocIo allocBuf m =
     (let (ok, m1) = flushBegin callback m
      in if \<not> ok then (ALLOCATOR_META_ARCHIVE_FLUSH_IN_PROGRESS, m1)
         else let (ret, m2) = flushSegmentFile segIo segBuf m1
              in if ret \<noteq> 0 then (ret, m2) else flushAllocatorFile allocIo allocBuf m2)"

definition ContextIoManager_FlushCompleted :: "('b, 'e) ContextIoManager \<Rightarrow> ('b, 'e) ContextIoManager" where
  "ContextIoManager_FlushCompleted m =
     (let remaining = ContextIoManager_GetNumFilesFlushing m
      in if remaining = 0
         then let m1 = m\<lparr>flushInProgress := False\<rparr>
              in if flushInProgress m
                 then case flushCallback m1 of
                        Some e \<Rightarrow> m1\<lparr>scheduled := scheduled m1 @ [e], flushCallback := None\<rparr>
                      | None \<Rightarrow> m1
                 else m1
         else m)"

text \<open>A completed write: the counter of the file goes down, then the callback given to \<open>Flush\<close> runs.\<close>

definition completeSegmentFile :: "nat \<Rightarrow> nat \<Rightarrow> ('b, 'e) ContextIoManager \<Rightarrow> ('b, 'e) ContextIoManager result" where
  "completeSegmentFile i s m =
     andThen (AllocatorFileIo_FlushCompletedThenCB i s s (segmentFile m)) (\<lambda>f.
       Inr (ContextIoManager_FlushCompleted (m\<lparr>segmentFile := f\<rparr>)))"

definition completeAllocatorFile :: "nat \<Rightarrow> nat \<Rightarrow> ('b, 'e) ContextIoManager \<Rightarrow> ('b, 'e) ContextIoManager result" where
  "completeAllocatorFile i s m =
     andThen (AllocatorFileIo_FlushCompletedThenCB i s s (allocatorFile m)) (\<lambda>f.
       Inr (ContextIoManager_FlushCompleted (m\<lparr>allocatorFile := f\<rparr>)))"

lemmas context_io_defs [pos_defs] =
  ContextIoManager_GetNumFilesFlushing_def flushSegmentFile_def flushAllocatorFile_def flushBegin_def
  ContextIoManager_FlushContexts_def ContextIoManager_FlushCompleted_def completeSegmentFile_def
  completeAllocatorFile_def AllocatorFileIo_Flush_def AllocatorFileIo_FlushCompletedThenCB_def

definition idle :: "('b, 'e) ContextIoManager \<Rightarrow> bool" where
  "idle m \<longleftrightarrow> numFilesFlushing (segmentFile m) = 0 \<and> numFilesFlushing (allocatorFile m) = 0 \<and>
     flushing (segmentFile m) = [] \<and> flushing (allocatorFile m) = [] \<and> \<not> flushInProgress m \<and> flushCallback m = None"

section \<open>Properties\<close>

text \<open>
  C13. A checkpoint of the allocator: when both files accept their write and the two completions come after
  \<open>FlushContexts\<close>, in either order, the callback is scheduled exactly once, by the second of them, and the
  manager is idle again.
\<close>

theorem flush_callback_after_both:
  assumes "idle m" "ContextIoManager_FlushContexts (Some e) 0 sb 0 ab m = (ret, m1)"
  shows "ret = 0 \<and> scheduled m1 = scheduled m \<and>
    (\<exists>m2 m3. completeSegmentFile 0 s m1 = Inr m2 \<and> scheduled m2 = scheduled m \<and>
       completeAllocatorFile 0 s m2 = Inr m3 \<and> scheduled m3 = scheduled m @ [e] \<and> idle m3) \<and>
    (\<exists>m2 m3. completeAllocatorFile 0 s m1 = Inr m2 \<and> scheduled m2 = scheduled m \<and>
       completeSegmentFile 0 s m2 = Inr m3 \<and> scheduled m3 = scheduled m @ [e] \<and> idle m3)"
proof -
  have m1: "ret = 0 \<and> m1 = m\<lparr>flushInProgress := True, flushCallback := Some e,
      segmentFile := (segmentFile m)\<lparr>numFilesFlushing := 1, flushing := [sb]\<rparr>,
      allocatorFile := (allocatorFile m)\<lparr>numFilesFlushing := 1, flushing := [ab]\<rparr>\<rparr>"
    using assms by (auto simp: idle_def context_io_defs)
  show ?thesis
    using assms(1) by (simp add: m1 context_io_defs idle_def)
qed

definition idleFile :: "nat FileIo" where
  "idleFile = \<lparr>fileOpened = True, numFilesReading = 0, numFilesFlushing = 0, reading = 0, flushing = []\<rparr>"

definition idleManager :: "(nat, nat) ContextIoManager" where
  "idleManager = \<lparr>segmentFile = idleFile, allocatorFile = idleFile, flushInProgress = False, flushCallback = None,
     scheduled = []\<rparr>"

lemma idleManager_idle: "idle idleManager"
  by (simp add: idle_def idleManager_def idleFile_def)

theorem flush_callback_after_both_witness:
  "fst (ContextIoManager_FlushContexts (Some 7) 0 1 0 2 idleManager) = 0"
  using flush_callback_after_both [of idleManager 7 1 2 "fst (ContextIoManager_FlushContexts (Some 7) 0 1 0 2 idleManager)"
      "snd (ContextIoManager_FlushContexts (Some 7) 0 1 0 2 idleManager)" 0]
  by (simp add: idleManager_idle)

text \<open>
  C14. The callback can come too early. When the write of the segment context completes before the write of
  the allocator context is issued, or when that second write is refused, the count of files under way is
  already zero: the callback is scheduled although the allocator context is not stored.
\<close>

theorem flush_callback_too_early:
  assumes "idle m" "flushBegin (Some e) m = (True, m1)" "flushSegmentFile 0 sb m1 = (0, m2)"
  shows "(\<exists>m3. completeSegmentFile 0 s m2 = Inr m3 \<and> scheduled m3 = scheduled m @ [e] \<and>
      flushing (allocatorFile (snd (flushAllocatorFile 0 ab m3))) = [ab]) \<and>
    (r \<noteq> 0 \<longrightarrow> (\<exists>m4 m5. ContextIoManager_FlushContexts (Some e) 0 sb r ab m = (- 1, m4) \<and>
      completeSegmentFile 0 s m4 = Inr m5 \<and> scheduled m5 = scheduled m @ [e] \<and> flushing (allocatorFile m5) = []))"
  using assms by (auto simp: idle_def context_io_defs)

theorem flush_callback_too_early_witness:
  "\<exists>m3. completeSegmentFile 0 0 (snd (flushSegmentFile 0 1 (snd (flushBegin (Some 7) idleManager)))) = Inr m3 \<and>
     scheduled m3 = [7]"
proof -
  have b: "flushBegin (Some 7) idleManager = (True, snd (flushBegin (Some 7) idleManager))"
    by (simp add: flushBegin_def idleManager_def)
  have f: "flushSegmentFile 0 1 x = (0, snd (flushSegmentFile 0 1 x))" for x :: "(nat, nat) ContextIoManager"
    by (simp add: flushSegmentFile_def AllocatorFileIo_Flush_def Let_def)
  have "scheduled idleManager = []" by (simp add: idleManager_def)
  with flush_callback_too_early [OF idleManager_idle b f, of 0 2 0] show ?thesis by auto
qed

text \<open>
  C15. A refused write of the segment context blocks every later checkpoint: \<open>FlushContexts\<close> returns -1 and leaves
  \<open>flushInProgress\<close> set with no write under way, so each later call returns
  \<open>ALLOCATOR_META_ARCHIVE_FLUSH_IN_PROGRESS\<close> and changes nothing.
\<close>

theorem refused_flush_blocks:
  assumes "idle m" "r \<noteq> 0" "ContextIoManager_FlushContexts cb r sb a ab m = (ret, m1)"
  shows "ret = - 1 \<and> ContextIoManager_GetNumFilesFlushing m1 = 0 \<and>
    ContextIoManager_FlushContexts cb' 0 sb' 0 ab' m1 = (ALLOCATOR_META_ARCHIVE_FLUSH_IN_PROGRESS, m1)"
  using assms by (auto simp: idle_def context_io_defs)

theorem refused_flush_blocks_witness:
  "fst (ContextIoManager_FlushContexts (Some 7) 5 1 0 2 idleManager) = - 1"
  using refused_flush_blocks [of idleManager 5 "Some 7" 1 0 2
      "fst (ContextIoManager_FlushContexts (Some 7) 5 1 0 2 idleManager)"
      "snd (ContextIoManager_FlushContexts (Some 7) 5 1 0 2 idleManager)" None 0 0]
  by (simp add: idleManager_idle)

end
