(* ===== verification/BufferPool.thy ===== *)
theory BufferPool
  imports PosPrelude "HOL-Library.Multiset"
begin

text \<open>
  Pools of equally sized buffers (\<^verbatim>\<open>src/resource_manager/buffer_pool.cpp\<close> and \<^verbatim>\<open>memory_manager.cpp\<close>). A pool
  cuts the pages it gets from the huge page allocator into buffers and hands them out in the order of
  a queue. The allocator is outside: \<open>alloc k\<close> is its answer to the \<open>k\<close>-th request, \<open>None\<close> for a null pointer,
  and \<open>pageSize\<close> its page size. Addresses are byte addresses.
\<close>

section \<open>State and operations\<close>

record BufferInfo =
  owner :: string
  bufferSize :: nat
  bufferCount :: nat

record BufferPool =
  BUFFER_INFO :: BufferInfo
  freeBuffers :: "nat list"
  totalBuffers :: "nat list"
  allocatedHugepages :: "nat list"

definition BufferPool_Clear :: "BufferPool \<Rightarrow> BufferPool" where
  "BufferPool_Clear p = p\<lparr>allocatedHugepages := []\<rparr>"

text \<open>The request for a page when no buffer is left in the current one: the number of buffers and the address.\<close>

definition Alloc_page ::
    "(nat \<Rightarrow> nat option) \<Rightarrow> nat \<Rightarrow> nat \<Rightarrow> nat \<Rightarrow> BufferPool \<Rightarrow> (nat \<times> nat \<times> BufferPool) option" where
  "Alloc_page alloc allocBytes remainBufferCount buffer p =
     (if remainBufferCount = 0
      then case alloc (length (allocatedHugepages p)) of
             None \<Rightarrow> None
           | Some b \<Rightarrow> Some (u32 (allocBytes div bufferSize (BUFFER_INFO p)), b,
                            p\<lparr>allocatedHugepages := allocatedHugepages p @ [b]\<rparr>)
      else Some (remainBufferCount, buffer, p))"

text \<open>The loop of \<open>_Alloc\<close>, with \<open>n\<close> rounds left.\<close>

primrec Alloc_loop ::
    "(nat \<Rightarrow> nat option) \<Rightarrow> nat \<Rightarrow> nat \<Rightarrow> nat \<Rightarrow> nat \<Rightarrow> BufferPool \<Rightarrow> bool \<times> BufferPool" where
  "Alloc_loop alloc allocBytes 0 remainBufferCount buffer p = (True, p)"
| "Alloc_loop alloc allocBytes (Suc n) remainBufferCount buffer p =
     (case Alloc_page alloc allocBytes remainBufferCount buffer p of
        None \<Rightarrow> (False, p)
      | Some (r, b, p1) \<Rightarrow>
          Alloc_loop alloc allocBytes n (if r = 0 then 2 ^ 32 - 1 else r - 1) (b + bufferSize (BUFFER_INFO p1))
            (p1\<lparr>freeBuffers := freeBuffers p1 @ [b], totalBuffers := totalBuffers p1 @ [b]\<rparr>))"

definition allocBytesOf :: "nat \<Rightarrow> nat \<Rightarrow> nat" where
  "allocBytesOf pageSize sz = pageSize * (if pageSize < sz then sz div pageSize + 1 else 1)"

definition BufferPool_Alloc :: "nat \<Rightarrow> (nat \<Rightarrow> nat option) \<Rightarrow> BufferPool \<Rightarrow> bool \<times> BufferPool" where
  "BufferPool_Alloc pageSize alloc p =
     Alloc_loop alloc (allocBytesOf pageSize (bufferSize (BUFFER_INFO p))) (bufferCount (BUFFER_INFO p)) 0 0 p"

definition BufferPool_new :: "nat \<Rightarrow> (nat \<Rightarrow> nat option) \<Rightarrow> BufferInfo \<Rightarrow> BufferPool" where
  "BufferPool_new pageSize alloc info =
     (let (ok, p) = BufferPool_Alloc pageSize alloc
             \<lparr>BUFFER_INFO = info, freeBuffers = [], totalBuffers = [], allocatedHugepages = []\<rparr>
      in if ok then p else BufferPool_Clear p)"

definition BufferPool_TryGetBuffer :: "BufferPool \<Rightarrow> nat option \<times> BufferPool" where
  "BufferPool_TryGetBuffer p =
     (case freeBuffers p of [] \<Rightarrow> (None, p) | b # bs \<Rightarrow> (Some b, p\<lparr>freeBuffers := bs\<rparr>))"

definition BufferPool_ReturnBuffer :: "nat option \<Rightarrow> BufferPool \<Rightarrow> BufferPool" where
  "BufferPool_ReturnBuffer buffer p =
     (case buffer of None \<Rightarrow> p | Some b \<Rightarrow> p\<lparr>freeBuffers := freeBuffers p @ [b]\<rparr>)"

section \<open>The memory manager\<close>

text \<open>
  Pools are known by a number, which stands for their address; \<open>numa\<close> is the node of the calling thread,
  \<open>create\<close> the factory.
\<close>

abbreviation (input) USE_DEFAULT_SOCKET :: nat where
  "USE_DEFAULT_SOCKET \<equiv> 4294967295"

definition MemoryManager_CheckBufferPolicy :: "nat \<Rightarrow> nat \<Rightarrow> BufferInfo \<Rightarrow> nat \<Rightarrow> bool \<times> nat" where
  "MemoryManager_CheckBufferPolicy numa numaCount info socket =
     (if owner info = '''' then (False, socket)
      else if bufferSize info = 0 then (False, socket)
      else if bufferSize info mod 4096 \<noteq> 0 then (False, socket)
      else if socket = USE_DEFAULT_SOCKET then (True, numa)
      else if socket > numaCount then (False, socket)
      else (True, socket))"

definition MemoryManager_CreateBufferPool ::
    "nat \<Rightarrow> nat \<Rightarrow> (BufferInfo \<Rightarrow> nat \<Rightarrow> nat option) \<Rightarrow> BufferInfo \<Rightarrow> nat \<Rightarrow> nat list \<Rightarrow> nat option \<times> nat list" where
  "MemoryManager_CreateBufferPool numa numaCount create info socket pools =
     (case MemoryManager_CheckBufferPolicy numa numaCount info socket of
        (False, _) \<Rightarrow> (None, pools)
      | (True, s) \<Rightarrow> (case create info s of
                       None \<Rightarrow> (None, pools)
                     | Some pool \<Rightarrow> (Some pool, pools @ [pool])))"

definition MemoryManager_DeleteBufferPool :: "nat \<Rightarrow> nat list \<Rightarrow> bool \<times> nat list" where
  "MemoryManager_DeleteBufferPool poolToDelete pools =
     (let sizeAfterRemove = (if pools = [] then 2 ^ 32 - 1 else length pools - 1);
          pools1 = filter (\<lambda>q. q \<noteq> poolToDelete) pools
      in (sizeAfterRemove = length pools1, pools1))"


section \<open>Where the buffers are\<close>

text \<open>\<open>buffersPerPage\<close> buffers are cut from each request; the \<open>i\<close>-th buffer of a pool has the address \<open>bufferAt i\<close>.\<close>

definition buffersPerPage :: "nat \<Rightarrow> nat \<Rightarrow> nat" where
  "buffersPerPage pageSize sz = allocBytesOf pageSize sz div sz"

definition bufferAt :: "(nat \<Rightarrow> nat option) \<Rightarrow> nat \<Rightarrow> nat \<Rightarrow> nat \<Rightarrow> nat" where
  "bufferAt alloc c sz i = the (alloc (i div c)) + i mod c * sz"

definition apart :: "nat \<Rightarrow> nat \<Rightarrow> nat \<Rightarrow> bool" where
  "apart n a b \<longleftrightarrow> a + n \<le> b \<or> b + n \<le> a"

lemma apart_sym: "apart n a b \<longleftrightarrow> apart n b a"
  by (auto simp: apart_def)

lemma buffersPerPage_pos:
  assumes "0 < sz" "0 < pageSize"
  shows "0 < buffersPerPage pageSize sz"
proof (cases "pageSize < sz")
  case True
  have "sz \<le> pageSize * (sz div pageSize + 1)"
    using dividend_less_times_div [of pageSize sz] assms(2) by simp
  with True assms(1) show ?thesis
    by (simp add: buffersPerPage_def allocBytesOf_def div_greater_zero_iff)
next
  case False
  then show ?thesis using assms by (simp add: buffersPerPage_def allocBytesOf_def div_greater_zero_iff)
qed

text \<open>The state of the loop after \<open>k\<close> rounds.\<close>

definition cutting :: "(nat \<Rightarrow> nat option) \<Rightarrow> nat \<Rightarrow> nat \<Rightarrow> nat \<Rightarrow> nat \<Rightarrow> BufferPool \<Rightarrow> bool" where
  "cutting alloc c k r b p \<longleftrightarrow>
     r = (if k mod c = 0 then 0 else c - k mod c) \<and>
     (k mod c \<noteq> 0 \<longrightarrow> b = bufferAt alloc c (bufferSize (BUFFER_INFO p)) k) \<and>
     totalBuffers p = map (bufferAt alloc c (bufferSize (BUFFER_INFO p))) [0..<k] \<and>
     freeBuffers p = totalBuffers p \<and>
     length (allocatedHugepages p) = (if k mod c = 0 then k div c else Suc (k div c))"

lemma cutting_step:
  assumes "cutting alloc c k r b p" "0 < c" "c < 2 ^ 32"
    "A div bufferSize (BUFFER_INFO p) = c" "alloc (k div c) \<noteq> None"
  obtains r1 b1 p1 where "Alloc_page alloc A r b p = Some (r1, b1, p1)" "0 < r1" "BUFFER_INFO p1 = BUFFER_INFO p"
    "cutting alloc c (Suc k) (r1 - 1) (b1 + bufferSize (BUFFER_INFO p))
       (p1\<lparr>freeBuffers := freeBuffers p1 @ [b1], totalBuffers := totalBuffers p1 @ [b1]\<rparr>)"
proof (cases "k mod c = 0")
  case True
  obtain g where g: "alloc (k div c) = Some g" using assms(5) by blast
  have r: "r = 0" "length (allocatedHugepages p) = k div c" using assms(1) True by (simp_all add: cutting_def)
  let ?p1 = "p\<lparr>allocatedHugepages := allocatedHugepages p @ [g]\<rparr>"
  have "Alloc_page alloc A r b p = Some (c, g, ?p1)"
    using r g assms(3,4) by (simp add: Alloc_page_def)
  moreover have "cutting alloc c (Suc k) (c - 1) (g + bufferSize (BUFFER_INFO p))
       (?p1\<lparr>freeBuffers := freeBuffers ?p1 @ [g], totalBuffers := totalBuffers ?p1 @ [g]\<rparr>)"
    using assms(1,2) True g r(2)
    by (auto simp: cutting_def mod_Suc div_Suc bufferAt_def)
  ultimately show thesis using that [of c g ?p1] assms(2) by simp
next
  case False
  then have r: "r = c - k mod c" "0 < r" "b = bufferAt alloc c (bufferSize (BUFFER_INFO p)) k"
    using assms(1,2) by (simp_all add: cutting_def)
  have "Alloc_page alloc A r b p = Some (r, b, p)" using r(2) by (simp add: Alloc_page_def)
  moreover have "cutting alloc c (Suc k) (r - 1) (b + bufferSize (BUFFER_INFO p))
       (p\<lparr>freeBuffers := freeBuffers p @ [b], totalBuffers := totalBuffers p @ [b]\<rparr>)"
    using assms(1,2) False r
    by (auto simp: cutting_def mod_Suc div_Suc bufferAt_def)
  ultimately show thesis using that [of r b p] r(2) by simp
qed

lemma Alloc_loop_cutting:
  assumes "cutting alloc c k r b p" "0 < c" "c < 2 ^ 32" "A div bufferSize (BUFFER_INFO p) = c"
    "\<forall>i. i < k + n \<longrightarrow> alloc (i div c) \<noteq> None"
  shows "\<exists>p'. Alloc_loop alloc A n r b p = (True, p') \<and> BUFFER_INFO p' = BUFFER_INFO p \<and>
    (\<exists>r' b'. cutting alloc c (k + n) r' b' p')"
  using assms
proof (induction n arbitrary: k r b p)
  case 0
  then show ?case by auto
next
  case (Suc n)
  have "alloc (k div c) \<noteq> None" using Suc.prems(5) by simp
  then obtain r1 b1 p1 where s: "Alloc_page alloc A r b p = Some (r1, b1, p1)" "0 < r1"
      "BUFFER_INFO p1 = BUFFER_INFO p"
    and cut: "cutting alloc c (Suc k) (r1 - 1) (b1 + bufferSize (BUFFER_INFO p))
       (p1\<lparr>freeBuffers := freeBuffers p1 @ [b1], totalBuffers := totalBuffers p1 @ [b1]\<rparr>)"
    using cutting_step [OF Suc.prems(1-4)] by blast
  from Suc.IH [OF cut Suc.prems(2,3)] Suc.prems(4,5) s show ?case by simp
qed

lemma BufferPool_new_eq:
  assumes "0 < bufferSize info" "0 < pageSize" "buffersPerPage pageSize (bufferSize info) < 2 ^ 32"
    "\<forall>i. i < bufferCount info \<longrightarrow> alloc (i div buffersPerPage pageSize (bufferSize info)) \<noteq> None"
  shows "totalBuffers (BufferPool_new pageSize alloc info) =
      map (bufferAt alloc (buffersPerPage pageSize (bufferSize info)) (bufferSize info)) [0..<bufferCount info] \<and>
    freeBuffers (BufferPool_new pageSize alloc info) = totalBuffers (BufferPool_new pageSize alloc info)"
proof -
  let ?p = "\<lparr>BUFFER_INFO = info, freeBuffers = [], totalBuffers = [], allocatedHugepages = []\<rparr>"
  let ?c = "buffersPerPage pageSize (bufferSize info)"
  have "cutting alloc ?c 0 0 0 ?p" by (simp add: cutting_def)
  from Alloc_loop_cutting [OF this buffersPerPage_pos [OF assms(1,2)] assms(3), of "allocBytesOf pageSize (bufferSize info)"
      "bufferCount info"] assms(4)
  obtain p' r' b' where "BufferPool_Alloc pageSize alloc ?p = (True, p')" "BUFFER_INFO p' = info"
    "cutting alloc ?c (bufferCount info) r' b' p'"
    by (auto simp: BufferPool_Alloc_def buffersPerPage_def)
  then show ?thesis by (simp add: BufferPool_new_def cutting_def)
qed

lemma bufferAt_apart:
  assumes "0 < sz" "0 < pageSize" "i < j" "c = buffersPerPage pageSize sz"
    "alloc (i div c) = Some a" "alloc (j div c) = Some b"
    "i div c \<noteq> j div c \<longrightarrow> apart (allocBytesOf pageSize sz) a b"
  shows "apart sz (bufferAt alloc c sz i) (bufferAt alloc c sz j)"
proof -
  have c: "0 < c" using buffersPerPage_pos [OF assms(1,2)] assms(4) by simp
  have in_page: "k mod c * sz + sz \<le> allocBytesOf pageSize sz" for k
  proof -
    have "k mod c * sz + sz \<le> c * sz"
      using mult_le_mono1 [of "Suc (k mod c)" c sz] c by (simp add: Suc_le_eq)
    also have "\<dots> \<le> allocBytesOf pageSize sz" by (simp add: assms(4) buffersPerPage_def)
    finally show ?thesis .
  qed
  show ?thesis
  proof (cases "i div c = j div c")
    case True
    then have "i mod c < j mod c" using assms(3) div_mult_mod_eq [of i c] div_mult_mod_eq [of j c]
      by (metis add_less_cancel_left)
    then have "i mod c * sz + sz \<le> j mod c * sz" using mult_le_mono1 [of "Suc (i mod c)" "j mod c" sz] by simp
    then show ?thesis using True assms(5,6) by (simp add: bufferAt_def apart_def)
  next
    case False
    then show ?thesis using assms(5-7) in_page [of i] in_page [of j] by (auto simp: bufferAt_def apart_def)
  qed
qed

section \<open>Handing out and returning\<close>

text \<open>
  The buffers that are held by clients: a client returns only what it holds. \<open>poolStep\<close> is one call of either
  operation on a pool and the multiset of held buffers.
\<close>

inductive poolStep :: "BufferPool \<times> nat multiset \<Rightarrow> BufferPool \<times> nat multiset \<Rightarrow> bool" where
  get: "BufferPool_TryGetBuffer p = (Some b, p') \<Longrightarrow> poolStep (p, H) (p', H + {#b#})"
| empty: "BufferPool_TryGetBuffer p = (None, p') \<Longrightarrow> poolStep (p, H) (p', H)"
| return: "b \<in># H \<Longrightarrow> poolStep (p, H) (BufferPool_ReturnBuffer (Some b) p, H - {#b#})"

inductive_cases poolStepE: "poolStep s s'"

lemma poolStep_conserves:
  assumes "poolStep s s'"
  shows "mset (freeBuffers (fst s')) + snd s' = mset (freeBuffers (fst s)) + snd s \<and>
    totalBuffers (fst s') = totalBuffers (fst s)"
  using assms
  by (cases rule: poolStep.cases)
    (auto simp: BufferPool_TryGetBuffer_def BufferPool_ReturnBuffer_def split: list.splits)

lemma poolSteps_conserve:
  assumes "poolStep\<^sup>*\<^sup>* s s'"
  shows "mset (freeBuffers (fst s')) + snd s' = mset (freeBuffers (fst s)) + snd s \<and>
    totalBuffers (fst s') = totalBuffers (fst s)"
  using assms by (induction rule: rtranclp_induct) (auto dest: poolStep_conserves)

lemma count_part_of_distinct:
  assumes "A + H = mset xs" "distinct xs"
  shows "count H b \<le> 1"
proof -
  have "count (mset xs) b \<le> 1" using assms(2) by (simp add: distinct_count_atmost_1)
  then show ?thesis using arg_cong [OF assms(1), of "\<lambda>M. count M b"] by simp
qed

lemma new_buffers_apart:
  assumes "0 < bufferSize info" "0 < pageSize" "c = buffersPerPage pageSize (bufferSize info)"
    "\<And>i. i < n \<Longrightarrow> alloc (i div c) \<noteq> None"
    "\<And>i j a b. i \<noteq> j \<Longrightarrow> alloc i = Some a \<Longrightarrow> alloc j = Some b \<Longrightarrow> apart (allocBytesOf pageSize (bufferSize info)) a b"
    "i \<noteq> j" "i < n" "j < n"
  shows "apart (bufferSize info) (bufferAt alloc c (bufferSize info) i) (bufferAt alloc c (bufferSize info) j)"
proof -
  obtain a b where ab: "alloc (i div c) = Some a" "alloc (j div c) = Some b"
    using assms(4) [of i] assms(4) [of j] assms(7,8) by fastforce
  show ?thesis
  proof (cases "i < j")
    case True
    then show ?thesis using bufferAt_apart [OF assms(1,2) True assms(3) ab] assms(5) ab by blast
  next
    case False
    then have "j < i" using assms(6) by simp
    then show ?thesis using bufferAt_apart [OF assms(1,2) _ assms(3) ab(2,1)] assms(5) ab apart_sym by metis
  qed
qed

section \<open>Properties\<close>


text \<open>A pool of three buffers of two blocks in two pages, with one of them taken.\<close>

definition sampleBuffers :: BufferInfo where
  "sampleBuffers = \<lparr>owner = ''sample'', bufferSize = 8192, bufferCount = 3\<rparr>"

definition samplePages :: "nat \<Rightarrow> nat option" where
  "samplePages k = Some (Suc k * 65536)"

lemma samplePool:
  "freeBuffers (BufferPool_new 16384 samplePages sampleBuffers) = [65536, 73728, 131072]"
  by (simp add: BufferPool_new_def BufferPool_Alloc_def sampleBuffers_def samplePages_def allocBytesOf_def
      Alloc_page_def numeral_3_eq_3 numeral_2_eq_2)

lemma samplePages_apart:
  assumes "i \<noteq> j" "samplePages i = Some a" "samplePages j = Some b"
  shows "apart (allocBytesOf 16384 (bufferSize sampleBuffers)) a b"
  using assms by (cases "i < j") (auto simp: sampleBuffers_def samplePages_def allocBytesOf_def apart_def)


text \<open>
  When a later page is refused the constructor frees the pages it has, but keeps the buffers cut from them:
  the pool then hands out memory that is not allocated.
\<close>

lemma failed_pool_hands_out_freed_memory:
  "allocatedHugepages (BufferPool_new 16384 (\<lambda>k. if k = 0 then Some 65536 else None) sampleBuffers) = [] \<and>
   fst (BufferPool_TryGetBuffer (BufferPool_new 16384 (\<lambda>k. if k = 0 then Some 65536 else None) sampleBuffers)) = Some 65536"
  by (simp add: BufferPool_new_def BufferPool_Alloc_def sampleBuffers_def allocBytesOf_def
      Alloc_page_def numeral_3_eq_3 numeral_2_eq_2 BufferPool_Clear_def BufferPool_TryGetBuffer_def)

end
