(* ===== verification/Raid.thy ===== *)
theory Raid
  imports AddressTypes BufferPool
begin

text \<open>
  The fault tolerance methods of a partition (\<^verbatim>\<open>src/array/ft\<close>): RAID 5 with its parity computation and
  rebuild, RAID 10, RAID 0 and no RAID. A method places the blocks of a stripe on the chunks of the
  devices (\<open>Translate\<close>), turns a write into writes with redundancy (\<open>Convert\<close>), tells which blocks are needed to
  rebuild a lost one (\<open>GetRebuildGroup\<close>) and computes it from them (the recover function).

  Memory is a function from byte addresses to 64 bit elements; element \<open>i\<close> of the buffer at \<open>p\<close> is at \<open>p + 8 * i\<close>.
  The null pointer is address 0. The node of the calling thread is an argument (\<open>numa\<close>).
\<close>

section \<open>Types\<close>

datatype RaidTypeEnum = NONE | RAID0 | RAID5 | RAID10

datatype RaidState = NORMAL | DEGRADED | FAILURE

datatype ArrayDeviceState = NORMAL | FAULT | REBUILD

fun RaidType_ToString :: "RaidTypeEnum \<Rightarrow> string" where
  "RaidType_ToString NONE = ''NONE''"
| "RaidType_ToString RAID0 = ''RAID0''"
| "RaidType_ToString RAID5 = ''RAID5''"
| "RaidType_ToString RAID10 = ''RAID10''"

definition RaidType_of :: "string \<Rightarrow> RaidTypeEnum" where
  "RaidType_of type =
     (case find (\<lambda>t. type = RaidType_ToString t) [NONE, RAID0, RAID5, RAID10] of Some t \<Rightarrow> t | None \<Rightarrow> NONE)"

record PartitionPhysicalSize =
  startLba :: nat
  ppsBlksPerChunk :: nat
  ppsChunksPerStripe :: nat
  ppsStripesPerSegment :: nat
  ppsTotalSegments :: nat

record FtSizeInfo =
  ftMinWriteBlkCnt :: nat
  backupBlkCnt :: nat
  ftBlksPerChunk :: nat
  ftBlksPerStripe :: nat
  ftChunksPerStripe :: nat

record Method =
  methodType :: RaidTypeEnum
  ftSize :: FtSizeInfo
  mirrorDevCnt :: nat

type_synonym memory = "nat \<Rightarrow> uint64"

record BufferEntry =
  buffer :: nat
  blkCnt :: nat
  isParity :: bool
  bufferPool :: "nat option"

record LogicalWriteEntry =
  lweAddr :: LogicalBlkAddr
  lweBlkCnt :: nat
  lweBuffers :: "BufferEntry list"

record FtWriteEntry =
  fweAddr :: FtBlkAddr
  fweBlkCnt :: nat
  fweBuffers :: "BufferEntry list"

abbreviation (input) nullptr :: nat where
  "nullptr \<equiv> 0"

abbreviation (input) BLOCK_SIZE_BYTE :: nat where
  "BLOCK_SIZE_BYTE \<equiv> 4096"

abbreviation (input) BLOCKS_PER_CHUNK :: nat where
  "BLOCKS_PER_CHUNK \<equiv> 64"

abbreviation (input) MIN_WRITE_BLOCK_COUNT :: nat where
  "MIN_WRITE_BLOCK_COUNT \<equiv> 1"

section \<open>Buffer entries\<close>

definition BufferEntry_new :: "nat \<Rightarrow> nat \<Rightarrow> bool \<Rightarrow> BufferEntry" where
  "BufferEntry_new inputBuffer inputBlkCnt inputIsParity =
     \<lparr>buffer = inputBuffer, blkCnt = inputBlkCnt, isParity = inputIsParity, bufferPool = None\<rparr>"

definition BufferEntry_Reset :: "BufferEntry \<Rightarrow> BufferEntry" where
  "BufferEntry_Reset e = \<lparr>buffer = nullptr, blkCnt = 0, isParity = False, bufferPool = None\<rparr>"

definition BufferEntry_GetBlock :: "nat \<Rightarrow> BufferEntry \<Rightarrow> nat" where
  "BufferEntry_GetBlock blockIndex e =
     (if blockIndex \<ge> blkCnt e then nullptr else buffer e + blockIndex * BLOCK_SIZE_BYTE)"

text \<open>The pools are given as the list they are in; a buffer is returned to its own pool.\<close>

definition BufferEntry_ReturnBuffer :: "BufferPool list \<Rightarrow> BufferEntry \<Rightarrow> BufferPool list \<times> BufferEntry" where
  "BufferEntry_ReturnBuffer pools e =
     (case bufferPool e of
        None \<Rightarrow> (pools, e)
      | Some k \<Rightarrow> (pools[k := BufferPool_ReturnBuffer (if buffer e = nullptr then None else Some (buffer e)) (pools ! k)],
                  BufferEntry_Reset e))"

section \<open>No RAID and RAID 0\<close>

definition RaidNone_new :: "PartitionPhysicalSize \<Rightarrow> Method" where
  "RaidNone_new pSize =
     \<lparr>methodType = NONE,
      ftSize = \<lparr>ftMinWriteBlkCnt = MIN_WRITE_BLOCK_COUNT, backupBlkCnt = 0, ftBlksPerChunk = ppsBlksPerChunk pSize,
                ftBlksPerStripe = ppsBlksPerChunk pSize, ftChunksPerStripe = 1\<rparr>,
      mirrorDevCnt = 0\<rparr>"

definition Raid0_new :: "PartitionPhysicalSize \<Rightarrow> Method" where
  "Raid0_new pSize =
     \<lparr>methodType = RAID0,
      ftSize = \<lparr>ftMinWriteBlkCnt = MIN_WRITE_BLOCK_COUNT, backupBlkCnt = 0, ftBlksPerChunk = ppsBlksPerChunk pSize,
                ftBlksPerStripe = u32 (ppsChunksPerStripe pSize * ppsBlksPerChunk pSize),
                ftChunksPerStripe = ppsChunksPerStripe pSize\<rparr>,
      mirrorDevCnt = 0\<rparr>"

text \<open>\<open>Translate\<close>, \<open>Convert\<close> and \<open>GetRaidState\<close> are the same code in both classes.\<close>

definition Raid0_Translate :: "LogicalBlkAddr \<Rightarrow> FtBlkAddr" where
  "Raid0_Translate src = \<lparr>ftStripe = lsaStripe src, ftOffset = lsaOffset src\<rparr>"

definition Raid0_Convert :: "LogicalWriteEntry \<Rightarrow> FtWriteEntry list" where
  "Raid0_Convert src =
     [\<lparr>fweAddr = \<lparr>ftStripe = lsaStripe (lweAddr src), ftOffset = lsaOffset (lweAddr src)\<rparr>,
       fweBlkCnt = lweBlkCnt src, fweBuffers = lweBuffers src\<rparr>]"

definition Raid0_GetRaidState :: "ArrayDeviceState list \<Rightarrow> RaidState" where
  "Raid0_GetRaidState devs =
     (let abnormalDevs = filter (\<lambda>d. d \<noteq> ArrayDeviceState.NORMAL) devs
      in if length abnormalDevs = 0 then RaidState.NORMAL else FAILURE)"

definition Raid0_CheckNumofDevsToConfigure :: "nat \<Rightarrow> bool" where
  "Raid0_CheckNumofDevsToConfigure numofDevs = (numofDevs \<ge> 2)"

definition RaidNone_CheckNumofDevsToConfigure :: "nat \<Rightarrow> bool" where
  "RaidNone_CheckNumofDevsToConfigure numofDevs = (numofDevs = 1)"

section \<open>RAID 5\<close>

definition Raid5_new :: "PartitionPhysicalSize \<Rightarrow> Method" where
  "Raid5_new pSize =
     (let blksPerStripe = u32 (ppsChunksPerStripe pSize * ppsBlksPerChunk pSize)
      in \<lparr>methodType = RAID5,
          ftSize = \<lparr>ftMinWriteBlkCnt = u32 (blksPerStripe + 2 ^ 32 - ppsBlksPerChunk pSize),
                    backupBlkCnt = ppsBlksPerChunk pSize, ftBlksPerChunk = ppsBlksPerChunk pSize,
                    ftBlksPerStripe = blksPerStripe, ftChunksPerStripe = ppsChunksPerStripe pSize\<rparr>,
          mirrorDevCnt = 0\<rparr>)"

definition Raid5_GetParityOffset :: "nat \<Rightarrow> FtSizeInfo \<Rightarrow> nat list" where
  "Raid5_GetParityOffset lsid s = [lsid mod ftChunksPerStripe s]"

definition Raid5_Translate :: "FtSizeInfo \<Rightarrow> LogicalBlkAddr \<Rightarrow> FtBlkAddr" where
  "Raid5_Translate s src =
     (let chunkIndex = u32 (lsaOffset src div ftBlksPerChunk s);
          parityIndex = hd (Raid5_GetParityOffset (lsaStripe src) s)
      in \<lparr>ftStripe = lsaStripe src,
          ftOffset = (if chunkIndex \<ge> parityIndex then lsaOffset src + ftBlksPerChunk s else lsaOffset src)\<rparr>)"

definition Raid5_GetRebuildGroup :: "FtSizeInfo \<Rightarrow> FtBlkAddr \<Rightarrow> FtBlkAddr list" where
  "Raid5_GetRebuildGroup s fba =
     (let offsetInChunk = u32 (ftOffset fba mod ftBlksPerChunk s);
          chunkIndex = u32 (ftOffset fba div ftBlksPerChunk s)
      in map (\<lambda>i. \<lparr>ftStripe = ftStripe fba, ftOffset = u32 (offsetInChunk + i * ftBlksPerChunk s)\<rparr>)
           (filter (\<lambda>i. i \<noteq> chunkIndex) [0..<ftChunksPerStripe s]))"

definition Raid5_GetRaidState :: "ArrayDeviceState list \<Rightarrow> RaidState" where
  "Raid5_GetRaidState devs =
     (let abnormalDevs = filter (\<lambda>d. d \<noteq> ArrayDeviceState.NORMAL) devs
      in if length abnormalDevs = 0 then RaidState.NORMAL
         else if length abnormalDevs = 1 then DEGRADED else FAILURE)"

definition Raid5_CheckNumofDevsToConfigure :: "nat \<Rightarrow> bool" where
  "Raid5_CheckNumofDevsToConfigure numofDevs = (numofDevs \<ge> 3)"

definition Raid5_AllocBuffer :: "nat \<Rightarrow> BufferPool list \<Rightarrow> (BufferEntry \<times> BufferPool list) result" where
  "Raid5_AllocBuffer numa parityPools =
     (if numa < length parityPools
      then let (mem, pool) = BufferPool_TryGetBuffer (parityPools ! numa)
           in andThen (assertion (mem \<noteq> None)) (\<lambda>_.
                Inr ((BufferEntry_new (the mem) BLOCKS_PER_CHUNK True)\<lparr>bufferPool := Some numa\<rparr>,
                     parityPools[numa := pool]))
      else Inl Exception)"

definition Raid5_XorBlocks :: "nat \<Rightarrow> nat \<Rightarrow> nat \<Rightarrow> memory \<Rightarrow> memory" where
  "Raid5_XorBlocks dst src memSize m =
     fold (\<lambda>i m. m(dst + 8 * i := m (dst + 8 * i) XOR m (src + 8 * i))) [0..<memSize div 8] m"

definition Raid5_XorBlocks3 :: "nat \<Rightarrow> nat \<Rightarrow> nat \<Rightarrow> nat \<Rightarrow> memory \<Rightarrow> memory" where
  "Raid5_XorBlocks3 dst src1 src2 memSize m =
     fold (\<lambda>i m. m(dst + 8 * i := m (src1 + 8 * i) XOR m (src2 + 8 * i))) [0..<memSize div 8] m"

fun ComputeParity_loop :: "nat \<Rightarrow> nat \<Rightarrow> nat \<Rightarrow> nat \<Rightarrow> BufferEntry list \<Rightarrow> memory \<Rightarrow> memory" where
  "ComputeParity_loop memSize dst src1 src2 [] m = m"
| "ComputeParity_loop memSize dst src1 src2 (b # bs) m =
     (if src1 = nullptr then ComputeParity_loop memSize dst (buffer b) src2 bs m
      else if src2 = nullptr
           then ComputeParity_loop memSize dst src1 (buffer b) bs (Raid5_XorBlocks3 dst src1 (buffer b) memSize m)
           else ComputeParity_loop memSize dst src1 src2 bs (Raid5_XorBlocks dst (buffer b) memSize m))"

definition Raid5_ComputeParity :: "FtSizeInfo \<Rightarrow> BufferEntry \<Rightarrow> BufferEntry list \<Rightarrow> memory \<Rightarrow> memory" where
  "Raid5_ComputeParity s dst src m =
     ComputeParity_loop (u32 (ftBlksPerChunk s * BLOCK_SIZE_BYTE)) (buffer dst) nullptr nullptr src m"

definition Raid5_Convert ::
    "nat \<Rightarrow> FtSizeInfo \<Rightarrow> LogicalWriteEntry \<Rightarrow> BufferPool list \<times> memory \<Rightarrow> (FtWriteEntry list \<times> BufferPool list \<times> memory) result" where
  "Raid5_Convert numa s src = (\<lambda>(parityPools, m).
     andThen (Raid5_AllocBuffer numa parityPools) (\<lambda>(parity, pools).
       let m1 = Raid5_ComputeParity s parity (lweBuffers src) m;
           parityOffset = hd (Raid5_GetParityOffset (lsaStripe (lweAddr src)) s)
       in if parityOffset \<le> length (lweBuffers src)
          then Inr ([\<lparr>fweAddr = \<lparr>ftStripe = lsaStripe (lweAddr src), ftOffset = 0\<rparr>,
                      fweBlkCnt = u32 (lweBlkCnt src + backupBlkCnt s),
                      fweBuffers = take parityOffset (lweBuffers src) @ parity # drop parityOffset (lweBuffers src)\<rparr>],
                    pools, m1)
          else Inl OutOfBounds))"

definition Raid5_RebuildData :: "FtSizeInfo \<Rightarrow> nat \<Rightarrow> nat \<Rightarrow> nat \<Rightarrow> memory \<Rightarrow> memory" where
  "Raid5_RebuildData s dst src dstSize m =
     fold (\<lambda>i. Raid5_XorBlocks dst (src + i * dstSize) dstSize) [0..<u32 (ftChunksPerStripe s + 2 ^ 32 - 1)]
       (fold (\<lambda>i m. m(dst + 8 * i := 0)) [0..<dstSize div 8] m)"

text \<open>\<open>create numa\<close> is the pool the memory manager creates for a node, \<open>None\<close> when it refuses.\<close>

fun AllocParityPools_loop :: "(nat \<Rightarrow> BufferPool option) \<Rightarrow> nat list \<Rightarrow> BufferPool list \<Rightarrow> bool \<times> BufferPool list" where
  "AllocParityPools_loop create [] pools = (True, pools)"
| "AllocParityPools_loop create (numa # ns) pools =
     (case create numa of None \<Rightarrow> (False, []) | Some pool \<Rightarrow> AllocParityPools_loop create ns (pools @ [pool]))"

definition Raid5_AllocParityPools :: "(nat \<Rightarrow> BufferPool option) \<Rightarrow> nat \<Rightarrow> bool \<times> BufferPool list" where
  "Raid5_AllocParityPools create totalNumaCount = AllocParityPools_loop create [0..<totalNumaCount] []"

section \<open>RAID 10\<close>

definition Raid10_new :: "PartitionPhysicalSize \<Rightarrow> Method" where
  "Raid10_new pSize =
     (let mirror = ppsChunksPerStripe pSize div 2
      in \<lparr>methodType = RAID10,
          ftSize = \<lparr>ftMinWriteBlkCnt = MIN_WRITE_BLOCK_COUNT, backupBlkCnt = u32 (mirror * ppsBlksPerChunk pSize),
                    ftBlksPerChunk = ppsBlksPerChunk pSize,
                    ftBlksPerStripe = u32 (ppsChunksPerStripe pSize * ppsBlksPerChunk pSize),
                    ftChunksPerStripe = ppsChunksPerStripe pSize\<rparr>,
          mirrorDevCnt = mirror\<rparr>)"

definition Raid10_Translate :: "LogicalBlkAddr \<Rightarrow> FtBlkAddr" where
  "Raid10_Translate src = \<lparr>ftStripe = lsaStripe src, ftOffset = lsaOffset src\<rparr>"

definition Raid10_Convert :: "FtSizeInfo \<Rightarrow> LogicalWriteEntry \<Rightarrow> FtWriteEntry list" where
  "Raid10_Convert s src =
     (let ftEntry = \<lparr>fweAddr = Raid10_Translate (lweAddr src), fweBlkCnt = lweBlkCnt src, fweBuffers = lweBuffers src\<rparr>;
          mirror = ftEntry\<lparr>fweAddr := (fweAddr ftEntry)\<lparr>ftOffset := ftOffset (fweAddr ftEntry) + backupBlkCnt s\<rparr>\<rparr>
      in [ftEntry, mirror])"

definition Raid10_GetMirrorIndex :: "nat \<Rightarrow> nat \<Rightarrow> nat" where
  "Raid10_GetMirrorIndex mirrorCnt idx = (if idx \<ge> mirrorCnt then idx - mirrorCnt else idx + mirrorCnt)"

definition Raid10_GetRebuildGroup :: "Method \<Rightarrow> FtBlkAddr \<Rightarrow> FtBlkAddr list" where
  "Raid10_GetRebuildGroup meth fba =
     (let idx = u32 (ftOffset fba div ftBlksPerChunk (ftSize meth));
          offset = u32 (ftOffset fba mod ftBlksPerChunk (ftSize meth));
          mirror = Raid10_GetMirrorIndex (mirrorDevCnt meth) idx
      in [fba\<lparr>ftOffset := u32 (mirror * ftBlksPerChunk (ftSize meth) + offset)\<rparr>])"

text \<open>The loop over the devices, with the state found so far.\<close>

fun Raid10_GetRaidState_loop :: "nat \<Rightarrow> ArrayDeviceState list \<Rightarrow> nat list \<Rightarrow> RaidState \<Rightarrow> RaidState result" where
  "Raid10_GetRaidState_loop mirrorCnt devs [] rs = Inr rs"
| "Raid10_GetRaidState_loop mirrorCnt devs (i # is) rs =
     (if devs ! i \<noteq> ArrayDeviceState.NORMAL
      then let j = Raid10_GetMirrorIndex mirrorCnt i
           in if j < length devs
              then if devs ! j \<noteq> ArrayDeviceState.NORMAL then Inr FAILURE
                   else Raid10_GetRaidState_loop mirrorCnt devs is DEGRADED
              else Inl OutOfBounds
      else Raid10_GetRaidState_loop mirrorCnt devs is rs)"

definition Raid10_GetRaidState :: "nat \<Rightarrow> ArrayDeviceState list \<Rightarrow> RaidState result" where
  "Raid10_GetRaidState mirrorCnt devs = Raid10_GetRaidState_loop mirrorCnt devs [0..<length devs] RaidState.NORMAL"

definition Raid10_GetParityOffset :: "nat \<Rightarrow> nat list" where
  "Raid10_GetParityOffset mirrorCnt = [mirrorCnt..<mirrorCnt * 2]"

definition Raid10_CheckNumofDevsToConfigure :: "nat \<Rightarrow> bool" where
  "Raid10_CheckNumofDevsToConfigure numofDevs = (numofDevs \<ge> 2)"

definition Raid10_RebuildData :: "nat \<Rightarrow> nat \<Rightarrow> nat \<Rightarrow> memory \<Rightarrow> memory" where
  "Raid10_RebuildData dst src sz m = fold (\<lambda>i m. m(dst + 8 * i := m (src + 8 * i))) [0..<sz div 8] m"

section \<open>Virtual calls\<close>

definition Method_Translate :: "Method \<Rightarrow> LogicalBlkAddr \<Rightarrow> FtBlkAddr" where
  "Method_Translate meth src =
     (case methodType meth of
        NONE \<Rightarrow> Raid0_Translate src | RAID0 \<Rightarrow> Raid0_Translate src
      | RAID5 \<Rightarrow> Raid5_Translate (ftSize meth) src | RAID10 \<Rightarrow> Raid10_Translate src)"

definition Method_Convert ::
    "nat \<Rightarrow> Method \<Rightarrow> LogicalWriteEntry \<Rightarrow> BufferPool list \<times> memory \<Rightarrow> (FtWriteEntry list \<times> BufferPool list \<times> memory) result" where
  "Method_Convert numa meth src st =
     (case methodType meth of
        NONE \<Rightarrow> Inr (Raid0_Convert src, st) | RAID0 \<Rightarrow> Inr (Raid0_Convert src, st)
      | RAID5 \<Rightarrow> Raid5_Convert numa (ftSize meth) src st | RAID10 \<Rightarrow> Inr (Raid10_Convert (ftSize meth) src, st))"

definition Method_GetRaidState :: "Method \<Rightarrow> ArrayDeviceState list \<Rightarrow> RaidState result" where
  "Method_GetRaidState meth devs =
     (case methodType meth of
        NONE \<Rightarrow> Inr (Raid0_GetRaidState devs) | RAID0 \<Rightarrow> Inr (Raid0_GetRaidState devs)
      | RAID5 \<Rightarrow> Inr (Raid5_GetRaidState devs) | RAID10 \<Rightarrow> Raid10_GetRaidState (mirrorDevCnt meth) devs)"

definition Method_CheckNumofDevsToConfigure :: "Method \<Rightarrow> nat \<Rightarrow> bool" where
  "Method_CheckNumofDevsToConfigure meth n =
     (case methodType meth of
        NONE \<Rightarrow> RaidNone_CheckNumofDevsToConfigure n | RAID0 \<Rightarrow> Raid0_CheckNumofDevsToConfigure n
      | RAID5 \<Rightarrow> Raid5_CheckNumofDevsToConfigure n | RAID10 \<Rightarrow> Raid10_CheckNumofDevsToConfigure n)"

text \<open>The base class returns the empty list where a class does not override the call.\<close>

definition Method_GetRebuildGroup :: "Method \<Rightarrow> FtBlkAddr \<Rightarrow> FtBlkAddr list" where
  "Method_GetRebuildGroup meth fba =
     (case methodType meth of
        NONE \<Rightarrow> [] | RAID0 \<Rightarrow> []
      | RAID5 \<Rightarrow> Raid5_GetRebuildGroup (ftSize meth) fba | RAID10 \<Rightarrow> Raid10_GetRebuildGroup meth fba)"

text \<open>The recover function bound by the constructors; it is null where there is no redundancy.\<close>

definition Method_recoverFunc :: "Method \<Rightarrow> (nat \<Rightarrow> nat \<Rightarrow> nat \<Rightarrow> memory \<Rightarrow> memory) option" where
  "Method_recoverFunc meth =
     (case methodType meth of
        NONE \<Rightarrow> None | RAID0 \<Rightarrow> None
      | RAID5 \<Rightarrow> Some (Raid5_RebuildData (ftSize meth)) | RAID10 \<Rightarrow> Some Raid10_RebuildData)"


section \<open>Placement of blocks\<close>

text \<open>Sizes for which the 32 bit computations of the constructors are exact.\<close>

definition physOk :: "PartitionPhysicalSize \<Rightarrow> bool" where
  "physOk ps \<longleftrightarrow> 0 < ppsBlksPerChunk ps \<and> ppsBlksPerChunk ps * BLOCK_SIZE_BYTE < 2 ^ 32 \<and>
     0 < ppsChunksPerStripe ps \<and> ppsChunksPerStripe ps * ppsBlksPerChunk ps < 2 ^ 32"

lemma physOkD:
  assumes "physOk ps"
  shows "0 < ppsBlksPerChunk ps" "ppsBlksPerChunk ps * BLOCK_SIZE_BYTE < 2 ^ 32" "0 < ppsChunksPerStripe ps"
    "ppsChunksPerStripe ps * ppsBlksPerChunk ps < 2 ^ 32" "ppsChunksPerStripe ps < 2 ^ 32" "ppsBlksPerChunk ps < 2 ^ 32"
proof -
  have "ppsChunksPerStripe ps \<le> ppsChunksPerStripe ps * ppsBlksPerChunk ps"
    "ppsBlksPerChunk ps \<le> ppsChunksPerStripe ps * ppsBlksPerChunk ps" using assms by (simp_all add: physOk_def)
  then show "ppsChunksPerStripe ps < 2 ^ 32" "ppsBlksPerChunk ps < 2 ^ 32"
    using assms unfolding physOk_def by linarith+
qed (use assms in \<open>simp_all add: physOk_def\<close>)

lemma Raid5_size [simp]:
  assumes "physOk ps"
  shows "ftBlksPerChunk (ftSize (Raid5_new ps)) = ppsBlksPerChunk ps"
    "ftChunksPerStripe (ftSize (Raid5_new ps)) = ppsChunksPerStripe ps"
    "ftBlksPerStripe (ftSize (Raid5_new ps)) = ppsChunksPerStripe ps * ppsBlksPerChunk ps"
    "backupBlkCnt (ftSize (Raid5_new ps)) = ppsBlksPerChunk ps"
    "ftMinWriteBlkCnt (ftSize (Raid5_new ps)) = ppsChunksPerStripe ps * ppsBlksPerChunk ps - ppsBlksPerChunk ps"
  using physOkD [OF assms] u32_minus [of "ppsBlksPerChunk ps" "ppsChunksPerStripe ps * ppsBlksPerChunk ps"]
  by (simp_all add: Raid5_new_def Let_def)

lemma Raid10_size [simp]:
  assumes "physOk ps"
  shows "ftBlksPerChunk (ftSize (Raid10_new ps)) = ppsBlksPerChunk ps"
    "ftChunksPerStripe (ftSize (Raid10_new ps)) = ppsChunksPerStripe ps"
    "ftBlksPerStripe (ftSize (Raid10_new ps)) = ppsChunksPerStripe ps * ppsBlksPerChunk ps"
    "backupBlkCnt (ftSize (Raid10_new ps)) = ppsChunksPerStripe ps div 2 * ppsBlksPerChunk ps"
    "mirrorDevCnt (Raid10_new ps) = ppsChunksPerStripe ps div 2"
proof -
  have "ppsChunksPerStripe ps div 2 * ppsBlksPerChunk ps \<le> ppsChunksPerStripe ps * ppsBlksPerChunk ps"
    by (intro mult_le_mono1) simp
  then show "backupBlkCnt (ftSize (Raid10_new ps)) = ppsChunksPerStripe ps div 2 * ppsBlksPerChunk ps"
    using order_le_less_trans [OF _ physOkD(4) [OF assms]] by (simp add: Raid10_new_def Let_def)
qed (use physOkD [OF assms] in \<open>simp_all add: Raid10_new_def Let_def\<close>)

lemma Raid0_size [simp]:
  assumes "physOk ps"
  shows "ftBlksPerChunk (ftSize (Raid0_new ps)) = ppsBlksPerChunk ps"
    "ftBlksPerStripe (ftSize (Raid0_new ps)) = ppsChunksPerStripe ps * ppsBlksPerChunk ps"
    "ftChunksPerStripe (ftSize (Raid0_new ps)) = ppsChunksPerStripe ps"
    "backupBlkCnt (ftSize (Raid0_new ps)) = 0"
  using physOkD [OF assms] by (simp_all add: Raid0_new_def)

lemma RaidNone_size [simp]:
  "ftBlksPerChunk (ftSize (RaidNone_new ps)) = ppsBlksPerChunk ps"
  "ftBlksPerStripe (ftSize (RaidNone_new ps)) = ppsBlksPerChunk ps"
  "ftChunksPerStripe (ftSize (RaidNone_new ps)) = 1"
  "backupBlkCnt (ftSize (RaidNone_new ps)) = 0" "methodType (RaidNone_new ps) = NONE"
  by (simp_all add: RaidNone_new_def)

lemma method_types [simp]:
  "methodType (Raid5_new ps) = RAID5" "methodType (Raid10_new ps) = RAID10" "methodType (Raid0_new ps) = RAID0"
  by (simp_all add: Raid5_new_def Raid10_new_def Raid0_new_def Let_def)

text \<open>
  What a partition relies on: a method built for the devices of a partition places the logical blocks of a
  stripe on different blocks of that stripe.
\<close>

abbreviation dataBlks :: "Method \<Rightarrow> nat" where
  "dataBlks meth \<equiv> ftBlksPerStripe (ftSize meth) - backupBlkCnt (ftSize meth)"

locale ft_method =
  fixes mk :: "PartitionPhysicalSize \<Rightarrow> Method"
  assumes chunk_size: "physOk ps \<Longrightarrow> ftBlksPerChunk (ftSize (mk ps)) = ppsBlksPerChunk ps"
    and stripe_size: "physOk ps \<Longrightarrow> Method_CheckNumofDevsToConfigure (mk ps) (ppsChunksPerStripe ps) \<Longrightarrow>
      ftBlksPerStripe (ftSize (mk ps)) = ppsChunksPerStripe ps * ppsBlksPerChunk ps"
    and same_stripe: "ftStripe (Method_Translate (mk ps) l) = lsaStripe l"
    and in_stripe: "physOk ps \<Longrightarrow> Method_CheckNumofDevsToConfigure (mk ps) (ppsChunksPerStripe ps) \<Longrightarrow>
      lsaOffset l < dataBlks (mk ps) \<Longrightarrow> ftOffset (Method_Translate (mk ps) l) < ftBlksPerStripe (ftSize (mk ps))"
    and offset_inj: "physOk ps \<Longrightarrow> Method_CheckNumofDevsToConfigure (mk ps) (ppsChunksPerStripe ps) \<Longrightarrow>
      lsaOffset l < dataBlks (mk ps) \<Longrightarrow> lsaOffset l' < dataBlks (mk ps) \<Longrightarrow>
      Method_Translate (mk ps) l = Method_Translate (mk ps) l' \<Longrightarrow> lsaOffset l = lsaOffset l'"
begin

lemma translate_inj:
  assumes "physOk ps" "Method_CheckNumofDevsToConfigure (mk ps) (ppsChunksPerStripe ps)"
    "lsaOffset l < dataBlks (mk ps)" "lsaOffset l' < dataBlks (mk ps)"
    "Method_Translate (mk ps) l = Method_Translate (mk ps) l'"
  shows "l = l'"
  using offset_inj [OF assms] same_stripe [of ps l] same_stripe [of ps l'] assms(5) by simp

lemma translate_chunk:
  assumes "physOk ps" "Method_CheckNumofDevsToConfigure (mk ps) (ppsChunksPerStripe ps)" "lsaOffset l < dataBlks (mk ps)"
  shows "ftOffset (Method_Translate (mk ps) l) div ppsBlksPerChunk ps < ppsChunksPerStripe ps"
  using in_stripe [OF assms] stripe_size [OF assms(1,2)] by (simp add: less_mult_imp_div_less)

end

lemma Raid5_Translate_eq:
  assumes "physOk ps" "lsaOffset l < dataBlks (Raid5_new ps)"
  shows "Method_Translate (Raid5_new ps) l = \<lparr>ftStripe = lsaStripe l,
    ftOffset = (if lsaOffset l div ppsBlksPerChunk ps \<ge> lsaStripe l mod ppsChunksPerStripe ps
                then lsaOffset l + ppsBlksPerChunk ps else lsaOffset l)\<rparr>"
proof -
  have "lsaOffset l div ppsBlksPerChunk ps < 2 ^ 32"
    using assms physOkD(4) [OF assms(1)] by (intro le_less_trans [OF div_le_dividend]) simp
  then show ?thesis
    using assms(1) by (simp add: Method_Translate_def Raid5_Translate_def Raid5_GetParityOffset_def Let_def)
qed

text \<open>Skipping the parity chunk keeps offsets different.\<close>

lemma skip_chunk_inj:
  assumes "(if p \<le> a div b then a + b else a) = (if p \<le> c div b then c + b else (c :: nat))"
  shows "a = c"
proof -
  have "p \<le> y div b" if "p \<le> x div b" "y = x + b" for x y
    using that div_le_mono [of x y b] by simp
  then show ?thesis using assms by (metis add_right_cancel)
qed

interpretation raid5: ft_method Raid5_new
proof
  fix ps :: PartitionPhysicalSize and l l' :: LogicalBlkAddr
  show "ftStripe (Method_Translate (Raid5_new ps) l) = lsaStripe l"
    by (simp add: Method_Translate_def Raid5_new_def Let_def Raid5_Translate_def)
  assume ok: "physOk ps"
  let ?B = "ppsBlksPerChunk ps"
  show "ftBlksPerChunk (ftSize (Raid5_new ps)) = ?B" using ok by simp
  assume "Method_CheckNumofDevsToConfigure (Raid5_new ps) (ppsChunksPerStripe ps)"
  show "ftBlksPerStripe (ftSize (Raid5_new ps)) = ppsChunksPerStripe ps * ?B" using ok by simp
  assume l: "lsaOffset l < dataBlks (Raid5_new ps)"
  then have "lsaOffset l + ?B < ppsChunksPerStripe ps * ?B" using ok by (simp add: less_diff_conv)
  then show "ftOffset (Method_Translate (Raid5_new ps) l) < ftBlksPerStripe (ftSize (Raid5_new ps))"
    using ok by (auto simp: Raid5_Translate_eq [OF ok l])
  assume l': "lsaOffset l' < dataBlks (Raid5_new ps)"
    and eq: "Method_Translate (Raid5_new ps) l = Method_Translate (Raid5_new ps) l'"
  then have "lsaStripe l = lsaStripe l'" by (simp add: Raid5_Translate_eq [OF ok l] Raid5_Translate_eq [OF ok l'])
  with eq show "lsaOffset l = lsaOffset l'"
    unfolding Raid5_Translate_eq [OF ok l] Raid5_Translate_eq [OF ok l'] FtBlkAddr.ext_inject
    using skip_chunk_inj by metis
qed

interpretation raid10: ft_method Raid10_new
  by unfold_locales (auto simp: Method_Translate_def Raid10_Translate_def)

interpretation raid0: ft_method Raid0_new
  by unfold_locales (auto simp: Method_Translate_def Raid0_Translate_def)

interpretation raidnone: ft_method RaidNone_new
  by unfold_locales (auto simp: Method_Translate_def Raid0_Translate_def
      Method_CheckNumofDevsToConfigure_def RaidNone_CheckNumofDevsToConfigure_def)

section \<open>XOR of lists of elements\<close>

primrec xors :: "uint64 list \<Rightarrow> uint64" where
  "xors [] = 0"
| "xors (x # xs) = x XOR xors xs"

lemma xors_append [simp]: "xors (xs @ ys) = xors xs XOR xors ys"
  by (induction xs) (simp_all add: ac_simps)

lemma xors_insert: "xors (take k xs @ x # drop k xs) = x XOR xors xs"
proof -
  have "xors xs = xors (take k xs) XOR xors (drop k xs)" by (metis append_take_drop_id xors_append)
  then show ?thesis by (simp add: xor.left_commute)
qed

lemma upt_all_but_one:
  assumes "j < n"
  shows "filter (\<lambda>i. i \<noteq> j) [0..<n] = [0..<j] @ [Suc j..<n]" "[0..<n] = [0..<j] @ j # [Suc j..<n]"
proof -
  show split: "[0..<n] = [0..<j] @ j # [Suc j..<n]"
    using assms by (metis le_add1 less_imp_add_positive nat_less_le upt_add_eq_append upt_conv_Cons add_0)
  show "filter (\<lambda>i. i \<noteq> j) [0..<n] = [0..<j] @ [Suc j..<n]" by (simp add: split filter_id_conv)
qed

lemma xors_all_but_one: "j < n \<Longrightarrow> xors (map f (filter (\<lambda>i. i \<noteq> j) [0..<n])) XOR f j = xors (map f [0..<n])"
  by (simp add: upt_all_but_one ac_simps)

section \<open>Memory\<close>

text \<open>Loops that write each element of a buffer.\<close>

lemma fill_loop:
  fixes g :: "nat \<Rightarrow> memory \<Rightarrow> uint64"
  assumes "\<And>i j v m. i \<noteq> j \<Longrightarrow> i < n \<Longrightarrow> j < n \<Longrightarrow> g i (m(dst + 8 * j := v)) = g i m"
  shows "i < n \<Longrightarrow> fold (\<lambda>i m. m(dst + 8 * i := g i m)) [0..<n] m (dst + 8 * i) = g i m"
    and "\<forall>i<n. a \<noteq> dst + 8 * i \<Longrightarrow> fold (\<lambda>i m. m(dst + 8 * i := g i m)) [0..<n] m a = m a"
proof -
  define F where "F = (\<lambda>i m. m(dst + 8 * i := g i m))"
  have step: "fold F [0..<Suc k] m = (fold F [0..<k] m)(dst + 8 * k := g k (fold F [0..<k] m))" for k
    by (simp add: F_def)
  have keep: "g i (fold F [0..<k] m) = g i m" if "k \<le> i" "i < n" for i k
    using that
  proof (induction k)
    case (Suc k)
    then show ?case unfolding step by (simp add: assms del: fun_upd_apply)
  qed simp
  have "k \<le> n \<Longrightarrow> (\<forall>i<k. fold F [0..<k] m (dst + 8 * i) = g i m) \<and>
      (\<forall>a. (\<forall>i<k. a \<noteq> dst + 8 * i) \<longrightarrow> fold F [0..<k] m a = m a)" for k
  proof (induction k)
    case (Suc k)
    then show ?case unfolding step using keep [of k k] by (auto simp: less_Suc_eq)
  qed simp
  from this [of n] show "i < n \<Longrightarrow> fold (\<lambda>i m. m(dst + 8 * i := g i m)) [0..<n] m (dst + 8 * i) = g i m"
    and "\<forall>i<n. a \<noteq> dst + 8 * i \<Longrightarrow> fold (\<lambda>i m. m(dst + 8 * i := g i m)) [0..<n] m a = m a"
    unfolding F_def by blast+
qed

lemma element_neq:
  assumes "apart N (dst :: nat) src" "i < N div 8" "j < N div 8"
  shows "src + 8 * i \<noteq> dst + 8 * j"
proof -
  have "8 * i < N" "8 * j < N" using assms(2,3) by linarith+
  then show ?thesis using assms(1) by (auto simp: apart_def)
qed


lemma XorBlocks_inside:
  assumes "apart N dst src" "i < N div 8"
  shows "Raid5_XorBlocks dst src N m (dst + 8 * i) = m (dst + 8 * i) XOR m (src + 8 * i)"
  unfolding Raid5_XorBlocks_def
  using assms element_neq [OF assms(1)]
  by (intro fill_loop(1) [where g = "\<lambda>i m. m (dst + 8 * i) XOR m (src + 8 * i)"]) auto

lemma XorBlocks3_inside:
  assumes "apart N dst src1" "apart N dst src2" "i < N div 8"
  shows "Raid5_XorBlocks3 dst src1 src2 N m (dst + 8 * i) = m (src1 + 8 * i) XOR m (src2 + 8 * i)"
  unfolding Raid5_XorBlocks3_def
  using assms element_neq [OF assms(1)] element_neq [OF assms(2)]
  by (intro fill_loop(1) [where g = "\<lambda>i m. m (src1 + 8 * i) XOR m (src2 + 8 * i)"]) auto

lemma XorBlocks_outside:
  assumes "apart N dst src" "\<forall>i < N div 8. a \<noteq> dst + 8 * i"
  shows "Raid5_XorBlocks dst src N m a = m a"
  unfolding Raid5_XorBlocks_def
  using assms element_neq [OF assms(1)]
  by (intro fill_loop(2) [where g = "\<lambda>i m. m (dst + 8 * i) XOR m (src + 8 * i)"]) auto

lemma XorBlocks3_outside:
  assumes "apart N dst src1" "apart N dst src2" "\<forall>i < N div 8. a \<noteq> dst + 8 * i"
  shows "Raid5_XorBlocks3 dst src1 src2 N m a = m a"
  unfolding Raid5_XorBlocks3_def
  using assms element_neq [OF assms(1)] element_neq [OF assms(2)]
  by (intro fill_loop(2) [where g = "\<lambda>i m. m (src1 + 8 * i) XOR m (src2 + 8 * i)"]) auto

section \<open>Parity\<close>

text \<open>The buffers of a write are usable: not null, and apart from the parity buffer.\<close>

definition usable :: "nat \<Rightarrow> nat \<Rightarrow> BufferEntry list \<Rightarrow> bool" where
  "usable N dst bs \<longleftrightarrow> (\<forall>b\<in>set bs. buffer b \<noteq> nullptr \<and> apart N dst (buffer b))"

lemma usable_simps [simp]:
  "usable N dst []"
  "usable N dst (b # bs) \<longleftrightarrow> buffer b \<noteq> nullptr \<and> apart N dst (buffer b) \<and> usable N dst bs"
  by (auto simp: usable_def)

lemma ComputeParity_rest:
  assumes "usable N dst bs" "s1 \<noteq> nullptr" "s2 \<noteq> nullptr" "i < N div 8"
  shows "ComputeParity_loop N dst s1 s2 bs m (dst + 8 * i) = m (dst + 8 * i) XOR xors (map (\<lambda>b. m (buffer b + 8 * i)) bs)"
  using assms
proof (induction bs arbitrary: m)
  case (Cons b bs)
  have same: "Raid5_XorBlocks dst (buffer b) N m (buffer c + 8 * i) = m (buffer c + 8 * i)" if "c \<in> set bs" for c
    using that Cons.prems element_neq [of N dst "buffer c" i]
    by (intro XorBlocks_outside) (auto simp: usable_def)
  have eq: "map (\<lambda>c. Raid5_XorBlocks dst (buffer b) N m (buffer c + 8 * i)) bs = map (\<lambda>c. m (buffer c + 8 * i)) bs"
    using same by simp
  from Cons show ?case by (simp add: eq XorBlocks_inside xor.assoc)
qed simp

lemma ComputeParity_two:
  assumes "usable N dst bs" "2 \<le> length bs" "i < N div 8"
  shows "ComputeParity_loop N dst nullptr nullptr bs m (dst + 8 * i) = xors (map (\<lambda>b. m (buffer b + 8 * i)) bs)"
proof -
  obtain a b cs where bs: "bs = a # b # cs" using assms(2) by (cases bs; cases "tl bs") auto
  let ?m = "Raid5_XorBlocks3 dst (buffer a) (buffer b) N m"
  have "?m (buffer c + 8 * i) = m (buffer c + 8 * i)" if "c \<in> set cs" for c
    using that assms element_neq [of N dst "buffer c" i]
    by (intro XorBlocks3_outside) (auto simp: bs usable_def)
  then have eq: "map (\<lambda>c. ?m (buffer c + 8 * i)) cs = map (\<lambda>c. m (buffer c + 8 * i)) cs" by simp
  from assms show ?thesis
    by (simp add: bs eq ComputeParity_rest XorBlocks3_inside xor.assoc)
qed

lemma ComputeParity_outside:
  assumes "usable N dst bs" "s1 \<noteq> nullptr \<longrightarrow> apart N dst s1" "\<forall>i < N div 8. a \<noteq> dst + 8 * i"
  shows "ComputeParity_loop N dst s1 s2 bs m a = m a"
  using assms
proof (induction N dst s1 s2 bs m rule: ComputeParity_loop.induct)
  case (2 N dst s1 s2 b bs m)
  then show ?case by (simp add: XorBlocks_outside XorBlocks3_outside)
qed simp

section \<open>Rebuild of a block in RAID 5\<close>

lemma xor_rounds:
  assumes "\<forall>k<r. apart N dst (src + k * N)" "i < N div 8"
  shows "fold (\<lambda>k. Raid5_XorBlocks dst (src + k * N) N) [0..<r] m (dst + 8 * i) =
    m (dst + 8 * i) XOR xors (map (\<lambda>k. m (src + k * N + 8 * i)) [0..<r])"
proof -
  define F where "F = (\<lambda>k. Raid5_XorBlocks dst (src + k * N) N)"
  have out: "fold F [0..<k] m a = m a" if "k \<le> r" "\<forall>i < N div 8. a \<noteq> dst + 8 * i" for a k
    using that
  proof (induction k)
    case (Suc k)
    then show ?case using XorBlocks_outside [of N dst "src + k * N" a "fold F [0..<k] m"] assms(1) by (simp add: F_def)
  qed simp
  have "fold F [0..<k] m (dst + 8 * i) = m (dst + 8 * i) XOR xors (map (\<lambda>k. m (src + k * N + 8 * i)) [0..<k])"
    if "k \<le> r" for k
    using that
  proof (induction k)
    case (Suc k)
    have ap: "apart N dst (src + k * N)" using assms(1) Suc.prems by simp
    have "fold F [0..<k] m (src + k * N + 8 * i) = m (src + k * N + 8 * i)"
      using Suc.prems element_neq [OF ap assms(2)] by (intro out) auto
    then show ?case using Suc XorBlocks_inside [OF ap assms(2)] by (simp add: F_def xor.assoc)
  qed simp
  then show ?thesis unfolding F_def by blast
qed

lemma RebuildData_spec:
  assumes "1 \<le> ftChunksPerStripe s" "ftChunksPerStripe s < 2 ^ 32"
    "\<forall>k<ftChunksPerStripe s - 1. apart N dst (src + k * N)" "i < N div 8"
  shows "Raid5_RebuildData s dst src N m (dst + 8 * i) =
    xors (map (\<lambda>k. m (src + k * N + 8 * i)) [0..<ftChunksPerStripe s - 1])"
proof -
  let ?m = "fold (\<lambda>i m. m(dst + 8 * i := 0)) [0..<N div 8] m"
  have r: "u32 (ftChunksPerStripe s + 2 ^ 32 - 1) = ftChunksPerStripe s - 1"
    using assms(1,2) by (rule u32_minus)
  have z: "?m (dst + 8 * i) = 0" using assms(4) by (intro fill_loop(1) [where g = "\<lambda>_ _. 0"]) simp_all
  have "?m (src + k * N + 8 * i) = m (src + k * N + 8 * i)" if "k < ftChunksPerStripe s - 1" for k
    using that assms(3,4) element_neq [of N dst "src + k * N" i]
    by (intro fill_loop(2) [where g = "\<lambda>_ _. 0"]) auto
  then have eq: "map (\<lambda>k. ?m (src + k * N + 8 * i)) [0..<ftChunksPerStripe s - 1] =
      map (\<lambda>k. m (src + k * N + 8 * i)) [0..<ftChunksPerStripe s - 1]" by simp
  show ?thesis unfolding Raid5_RebuildData_def r using xor_rounds [OF assms(3,4), of ?m] by (simp only: z eq xor.left_neutral)
qed

text \<open>The address of the block at offset \<open>off\<close> of a stripe whose chunks are in the buffers \<open>bs\<close>.\<close>

definition blockPtr :: "nat \<Rightarrow> BufferEntry list \<Rightarrow> nat \<Rightarrow> nat" where
  "blockPtr B bs off = buffer (bs ! (off div B)) + off mod B * BLOCK_SIZE_BYTE"

lemma chunk_of_less: "off < n * B \<Longrightarrow> off div B < (n :: nat)"
  by (simp add: less_mult_imp_div_less)

lemma GetRebuildGroup_nth:
  assumes "physOk ps" "ftOffset fba < ppsChunksPerStripe ps * ppsBlksPerChunk ps"
  shows "Raid5_GetRebuildGroup (ftSize (Raid5_new ps)) fba =
    map (\<lambda>i. \<lparr>ftStripe = ftStripe fba, ftOffset = i * ppsBlksPerChunk ps + ftOffset fba mod ppsBlksPerChunk ps\<rparr>)
      (filter (\<lambda>i. i \<noteq> ftOffset fba div ppsBlksPerChunk ps) [0..<ppsChunksPerStripe ps])"
proof -
  let ?B = "ppsBlksPerChunk ps"
  note ok = physOkD [OF assms(1)]
  have "ftOffset fba mod ?B < 2 ^ 32" using ok(1,6) by (meson mod_less_divisor order_less_trans)
  moreover have "ftOffset fba div ?B < 2 ^ 32" using chunk_of_less [OF assms(2)] ok(5) by simp
  moreover have "ftOffset fba mod ?B + i * ?B < 2 ^ 32" if "i < ppsChunksPerStripe ps" for i
  proof -
    have "ftOffset fba mod ?B + i * ?B < Suc i * ?B" using ok(1) by simp
    also have "\<dots> \<le> ppsChunksPerStripe ps * ?B" using that by (intro mult_le_mono1) simp
    finally show ?thesis using ok(4) by simp
  qed
  ultimately show ?thesis
    using assms(1) by (simp add: Raid5_GetRebuildGroup_def Let_def add.commute)
qed

lemma xor_zero_eq:
  assumes "x XOR y = (0 :: uint64)"
  shows "x = y"
proof -
  have "x = (x XOR y) XOR y" by (simp only: xor.assoc xor_self_eq xor.right_neutral)
  with assms show ?thesis by simp
qed

lemma stripe_xor_zero:
  assumes "usable N (buffer q) ds" "2 \<le> length ds" "i < N div 8"
    "m1 = ComputeParity_loop N (buffer q) nullptr nullptr ds m"
  shows "xors (map (\<lambda>b. m1 (buffer b + 8 * i)) (take k ds @ q # drop k ds)) = 0"
proof -
  let ?f = "\<lambda>b. m1 (buffer b + 8 * i)"
  have "?f b = m (buffer b + 8 * i)" if "b \<in> set ds" for b
    unfolding assms(4) using that assms(1,3) element_neq [of N "buffer q" "buffer b" i]
    by (intro ComputeParity_outside) (auto simp: usable_def)
  then have "map ?f ds = map (\<lambda>b. m (buffer b + 8 * i)) ds" by simp
  moreover have "?f q = xors (map (\<lambda>b. m (buffer b + 8 * i)) ds)"
    unfolding assms(4) using assms(1,2,3) by (rule ComputeParity_two)
  ultimately have "?f q XOR xors (map ?f ds) = 0" by (simp only: xor_self_eq)
  then show ?thesis using xors_insert [of k "map ?f ds" "?f q"] by (simp only: map_append list.map take_map drop_map)
qed

lemma Raid5_Convert_result:
  assumes "physOk ps" "Raid5_Convert numa (ftSize (Raid5_new ps)) w (pools, m) = Inr (es, pools', m1)"
  obtains q where "fst (BufferPool_TryGetBuffer (pools ! numa)) = Some (buffer q)"
    "lsaStripe (lweAddr w) mod ppsChunksPerStripe ps \<le> length (lweBuffers w)"
    "es = [\<lparr>fweAddr = \<lparr>ftStripe = lsaStripe (lweAddr w), ftOffset = 0\<rparr>,
            fweBlkCnt = u32 (lweBlkCnt w + ppsBlksPerChunk ps),
            fweBuffers = take (lsaStripe (lweAddr w) mod ppsChunksPerStripe ps) (lweBuffers w) @ q #
              drop (lsaStripe (lweAddr w) mod ppsChunksPerStripe ps) (lweBuffers w)\<rparr>]"
    "m1 = ComputeParity_loop (ppsBlksPerChunk ps * BLOCK_SIZE_BYTE) (buffer q) nullptr nullptr (lweBuffers w) m"
    "blkCnt q = BLOCKS_PER_CHUNK"
proof -
  note ok = physOkD [OF assms(1)]
  obtain a b where tg: "BufferPool_TryGetBuffer (pools ! numa) = (a, b)" by fastforce
  show thesis
    using that [of "(BufferEntry_new (the a) BLOCKS_PER_CHUNK True)\<lparr>bufferPool := Some numa\<rparr>"] assms(2) ok(2) assms(1)
    by (auto simp: Raid5_Convert_def Raid5_AllocBuffer_def Raid5_ComputeParity_def Raid5_GetParityOffset_def tg
        andThen_eq_Inr Let_def BufferEntry_new_def split: if_splits)
qed

text \<open>The rebuild of a block from the others when the elements of the stripe cancel out.\<close>

lemma rebuild_from_group:
  assumes "physOk ps" "length bs = ppsChunksPerStripe ps" "ftOffset fba < ppsChunksPerStripe ps * ppsBlksPerChunk ps"
    "\<And>x. x < ppsBlksPerChunk ps * 512 \<Longrightarrow> xors (map (\<lambda>b. m1 (buffer b + 8 * x)) bs) = 0"
    "\<And>k. k < ppsChunksPerStripe ps - 1 \<Longrightarrow>
       m2 (src + k * BLOCK_SIZE_BYTE + 8 * i) = m1 (blockPtr (ppsBlksPerChunk ps) bs
         (ftOffset (Raid5_GetRebuildGroup (ftSize (Raid5_new ps)) fba ! k)) + 8 * i)"
    "\<And>k. k < ppsChunksPerStripe ps - 1 \<Longrightarrow> apart BLOCK_SIZE_BYTE dst (src + k * BLOCK_SIZE_BYTE)" "i < 512"
  shows "Raid5_RebuildData (ftSize (Raid5_new ps)) dst src BLOCK_SIZE_BYTE m2 (dst + 8 * i) =
    m1 (blockPtr (ppsBlksPerChunk ps) bs (ftOffset fba) + 8 * i)"
proof -
  let ?n = "ppsChunksPerStripe ps" and ?B = "ppsBlksPerChunk ps" and ?s = "ftSize (Raid5_new ps)"
  let ?j = "ftOffset fba div ?B" and ?o = "ftOffset fba mod ?B"
  let ?G = "Raid5_GetRebuildGroup ?s fba" and ?C = "filter (\<lambda>c. c \<noteq> ?j) [0..<?n]"
  let ?h = "\<lambda>c. m1 (buffer (bs ! c) + 8 * (?o * 512 + i))"
  let ?f = "\<lambda>a. m1 (blockPtr ?B bs (ftOffset a) + 8 * i)"
  note ok = physOkD [OF assms(1)]
  have x: "?o * 512 + i < ?B * 512" using ok(1) assms(7) by (intro mult_add_less) simp_all
  have j: "?j < ?n" using chunk_of_less [OF assms(3)] .
  have "map ?h [0..<?n] = map (\<lambda>b. m1 (buffer b + 8 * (?o * 512 + i))) bs"
    by (rule nth_equalityI) (simp_all add: assms(2))
  then have "xors (map ?h ?C) XOR ?h ?j = 0" using xors_all_but_one [OF j, of ?h] assms(4) [OF x] by simp
  then have hj: "xors (map ?h ?C) = ?h ?j" by (rule xor_zero_eq)
  have G: "?G = map (\<lambda>c. \<lparr>ftStripe = ftStripe fba, ftOffset = c * ?B + ?o\<rparr>) ?C"
    using GetRebuildGroup_nth [OF assms(1,3)] .
  have "length ?C = ?n - 1"
    using j by (simp add: upt_all_but_one(1))
  then have lenG: "length ?G = ?n - 1" by (simp add: G)
  have fG: "map ?f ?G = map ?h ?C"
    using ok(1) by (simp add: G blockPtr_def algebra_simps)
  have "Raid5_RebuildData ?s dst src BLOCK_SIZE_BYTE m2 (dst + 8 * i) =
      xors (map (\<lambda>k. m2 (src + k * BLOCK_SIZE_BYTE + 8 * i)) [0..<?n - 1])"
    using RebuildData_spec [of ?s 4096 dst src i m2] assms(1,6,7) ok(3,5) by simp
  also have "map (\<lambda>k. m2 (src + k * BLOCK_SIZE_BYTE + 8 * i)) [0..<?n - 1] = map ?f ?G"
    by (rule nth_equalityI) (simp_all add: lenG assms(5))
  also have "xors (map ?f ?G) = ?h ?j" by (simp only: fG hj)
  finally show ?thesis by (simp add: blockPtr_def algebra_simps)
qed

text \<open>
  C23. A lost block of a RAID 5 stripe is rebuilt: when \<open>Raid5::Convert\<close> has turned a full stripe of data buffers
  into a write with parity, then for every block of the stripe, data or parity, \<open>Raid5::_RebuildData\<close> of the
  blocks that \<open>Raid5::GetRebuildGroup\<close> names, read one after the other, gives the contents of that block;
  the data buffers themselves are not changed.
\<close>

theorem raid5_rebuild_block:
  assumes "physOk ps" "3 \<le> ppsChunksPerStripe ps" "length (lweBuffers w) = ppsChunksPerStripe ps - 1"
    "Raid5_Convert numa (ftSize (Raid5_new ps)) w (pools, m) = Inr ([e], pools', m1)"
    "usable (ppsBlksPerChunk ps * BLOCK_SIZE_BYTE) (the (fst (BufferPool_TryGetBuffer (pools ! numa)))) (lweBuffers w)"
    "ftOffset fba < ppsChunksPerStripe ps * ppsBlksPerChunk ps"
    "\<And>k i. k < ppsChunksPerStripe ps - 1 \<Longrightarrow> i < 512 \<Longrightarrow>
       m2 (src + k * BLOCK_SIZE_BYTE + 8 * i) = m1 (blockPtr (ppsBlksPerChunk ps) (fweBuffers e)
         (ftOffset (Raid5_GetRebuildGroup (ftSize (Raid5_new ps)) fba ! k)) + 8 * i)"
    "\<And>k. k < ppsChunksPerStripe ps - 1 \<Longrightarrow> apart BLOCK_SIZE_BYTE dst (src + k * BLOCK_SIZE_BYTE)"
  shows "(\<forall>i<512. Raid5_RebuildData (ftSize (Raid5_new ps)) dst src BLOCK_SIZE_BYTE m2 (dst + 8 * i) =
      m1 (blockPtr (ppsBlksPerChunk ps) (fweBuffers e) (ftOffset fba) + 8 * i)) \<and>
    (\<forall>b\<in>set (lweBuffers w). \<forall>i<ppsBlksPerChunk ps * 512. m1 (buffer b + 8 * i) = m (buffer b + 8 * i))"
proof -
  let ?n = "ppsChunksPerStripe ps" and ?B = "ppsBlksPerChunk ps" and ?ds = "lweBuffers w"
  let ?N = "?B * BLOCK_SIZE_BYTE" and ?k = "lsaStripe (lweAddr w) mod ppsChunksPerStripe ps"
  from Raid5_Convert_result [OF assms(1,4)]
  obtain q where q: "fst (BufferPool_TryGetBuffer (pools ! numa)) = Some (buffer q)"
    "fweBuffers e = take ?k ?ds @ q # drop ?k ?ds" "m1 = ComputeParity_loop ?N (buffer q) nullptr nullptr ?ds m"
    by (metis FtWriteEntry.select_convs(3) list.inject)
  have us: "usable ?N (buffer q) ?ds" using assms(5) q(1) by simp
  have zero: "xors (map (\<lambda>b. m1 (buffer b + 8 * x)) (fweBuffers e)) = 0" if "x < ?B * 512" for x
    unfolding q(2) using us assms(2,3) that q(3) by (intro stripe_xor_zero) auto
  have "length (fweBuffers e) = ?n" using assms(2,3) q(2) by simp
  from rebuild_from_group [OF assms(1) this assms(6) zero assms(7,8)]
  have "Raid5_RebuildData (ftSize (Raid5_new ps)) dst src BLOCK_SIZE_BYTE m2 (dst + 8 * i) =
      m1 (blockPtr ?B (fweBuffers e) (ftOffset fba) + 8 * i)" if "i < 512" for i
    using that by blast
  moreover have "m1 (buffer b + 8 * i) = m (buffer b + 8 * i)" if b: "b \<in> set ?ds" "i < ?B * 512" for b i
    unfolding q(3) using b us element_neq [of ?N "buffer q" "buffer b" i]
    by (intro ComputeParity_outside) (auto simp: usable_def)
  ultimately show ?thesis by blast
qed

text \<open>Three devices with chunks of one block, and a write of two buffers.\<close>

definition samplePhys :: PartitionPhysicalSize where
  "samplePhys = \<lparr>startLba = 0, ppsBlksPerChunk = 1, ppsChunksPerStripe = 3, ppsStripesPerSegment = 1024, ppsTotalSegments = 1\<rparr>"

definition sampleStripe :: LogicalWriteEntry where
  "sampleStripe = \<lparr>lweAddr = \<lparr>lsaStripe = 1, lsaOffset = 0\<rparr>, lweBlkCnt = 2,
     lweBuffers = [BufferEntry_new 4096 1 False, BufferEntry_new 8192 1 False]\<rparr>"

definition sampleParityPool :: BufferPool where
  "sampleParityPool = \<lparr>BUFFER_INFO = \<lparr>owner = ''raid'', bufferSize = 4096, bufferCount = 1\<rparr>,
     freeBuffers = [16384], totalBuffers = [16384], allocatedHugepages = [16384]\<rparr>"

text \<open>A memory in which the blocks of a rebuild group have been read one after the other from address \<open>src\<close>.\<close>

definition readBlocks :: "memory \<Rightarrow> nat \<Rightarrow> BufferEntry list \<Rightarrow> FtBlkAddr list \<Rightarrow> nat \<Rightarrow> memory" where
  "readBlocks m B bs G src a =
     m (blockPtr B bs (ftOffset (G ! ((a - src) div BLOCK_SIZE_BYTE))) + (a - src) mod BLOCK_SIZE_BYTE)"

lemma readBlocks_element:
  "i < 512 \<Longrightarrow> readBlocks m B bs G src (src + k * BLOCK_SIZE_BYTE + 8 * i) = m (blockPtr B bs (ftOffset (G ! k)) + 8 * i)"
  by (simp add: readBlocks_def)

theorem raid5_rebuild_block_witness:
  "\<exists>e pools m1. Raid5_Convert 0 (ftSize (Raid5_new samplePhys)) sampleStripe ([sampleParityPool], of_nat) = Inr ([e], pools, m1) \<and>
     Raid5_RebuildData (ftSize (Raid5_new samplePhys)) 65536 131072 BLOCK_SIZE_BYTE
       (readBlocks m1 1 (fweBuffers e) (Raid5_GetRebuildGroup (ftSize (Raid5_new samplePhys)) \<lparr>ftStripe = 1, ftOffset = 2\<rparr>) 131072)
       (65536 + 8 * 5) = m1 (blockPtr 1 (fweBuffers e) 2 + 8 * 5)"
proof -
  have ok: "physOk samplePhys" by (simp add: physOk_def samplePhys_def)
  obtain e pools m1 where c: "Raid5_Convert 0 (ftSize (Raid5_new samplePhys)) sampleStripe ([sampleParityPool], of_nat) = Inr ([e], pools, m1)"
    by (simp add: Raid5_Convert_def Raid5_AllocBuffer_def BufferPool_TryGetBuffer_def sampleParityPool_def
        Raid5_GetParityOffset_def sampleStripe_def ok) (simp add: samplePhys_def)
  have "\<forall>i<512. Raid5_RebuildData (ftSize (Raid5_new samplePhys)) 65536 131072 BLOCK_SIZE_BYTE
       (readBlocks m1 (ppsBlksPerChunk samplePhys) (fweBuffers e)
         (Raid5_GetRebuildGroup (ftSize (Raid5_new samplePhys)) \<lparr>ftStripe = 1, ftOffset = 2\<rparr>) 131072)
       (65536 + 8 * i) = m1 (blockPtr (ppsBlksPerChunk samplePhys) (fweBuffers e) 2 + 8 * i)"
    using raid5_rebuild_block [OF ok _ _ c, of "\<lparr>ftStripe = 1, ftOffset = 2\<rparr>", OF _ _ _ _ readBlocks_element [of _ m1
          "ppsBlksPerChunk samplePhys" "fweBuffers e"], of 65536 131072]
    by (simp add: samplePhys_def sampleStripe_def BufferEntry_new_def usable_def apart_def sampleParityPool_def
        BufferPool_TryGetBuffer_def)
  note r = this [rule_format]
  have five: "(5 :: nat) < 512" by simp
  have one: "ppsBlksPerChunk samplePhys = 1" by (simp add: samplePhys_def)
  from conjI [OF c r [OF five, unfolded one]] show ?thesis by (intro exI)
qed

section \<open>State of a RAID and its redundancy\<close>

lemma at_most_one:
  "length (filter P xs) \<le> 1 \<longleftrightarrow> (\<forall>i<length xs. \<forall>j<length xs. P (xs ! i) \<longrightarrow> P (xs ! j) \<longrightarrow> i = j)"
proof -
  have "length (filter P xs) \<le> Suc 0 \<longleftrightarrow> (\<forall>i\<in>{i. i < length xs \<and> P (xs ! i)}. \<forall>j\<in>{i. i < length xs \<and> P (xs ! i)}. i = j)"
    unfolding length_filter_conv_card by (rule card_le_Suc0_iff_eq) simp
  then show ?thesis by auto
qed

lemma Raid5_failure_iff:
  "Raid5_GetRaidState devs \<noteq> FAILURE \<longleftrightarrow>
     (\<forall>i<length devs. \<forall>j<length devs. devs ! i \<noteq> ArrayDeviceState.NORMAL \<longrightarrow> devs ! j \<noteq> ArrayDeviceState.NORMAL \<longrightarrow> i = j)"
proof -
  have "Raid5_GetRaidState devs \<noteq> FAILURE \<longleftrightarrow> length (filter (\<lambda>d. d \<noteq> ArrayDeviceState.NORMAL) devs) \<le> 1"
    by (auto simp: Raid5_GetRaidState_def Let_def le_Suc_eq)
  then show ?thesis by (simp only: at_most_one)
qed

lemma mirror_less: "i < 2 * c \<Longrightarrow> Raid10_GetMirrorIndex c i < 2 * c"
  by (auto simp: Raid10_GetMirrorIndex_def)

lemma mirror_mirror: "0 < c \<Longrightarrow> i < 2 * c \<Longrightarrow> Raid10_GetMirrorIndex c (Raid10_GetMirrorIndex c i) = i"
  by (auto simp: Raid10_GetMirrorIndex_def)

lemma Raid10_loop_iff:
  assumes "length devs = 2 * c" "\<forall>i\<in>set is. i < length devs" "rs \<noteq> FAILURE"
  shows "\<exists>r. Raid10_GetRaidState_loop c devs is rs = Inr r \<and> (r \<noteq> FAILURE \<longleftrightarrow>
    (\<forall>i\<in>set is. devs ! i \<noteq> ArrayDeviceState.NORMAL \<longrightarrow> devs ! Raid10_GetMirrorIndex c i = ArrayDeviceState.NORMAL))"
  using assms
proof (induction c devs "is" rs rule: Raid10_GetRaidState_loop.induct)
  case (2 c devs i "is" rs)
  then show ?case using mirror_less [of i c] by (cases "devs ! i = ArrayDeviceState.NORMAL") (auto simp: Let_def)
qed simp

lemma Raid10_failure_iff:
  assumes "length devs = 2 * c"
  shows "\<exists>r. Raid10_GetRaidState c devs = Inr r \<and> (r \<noteq> FAILURE \<longleftrightarrow>
    (\<forall>i<length devs. devs ! i \<noteq> ArrayDeviceState.NORMAL \<longrightarrow> devs ! Raid10_GetMirrorIndex c i = ArrayDeviceState.NORMAL))"
  using Raid10_loop_iff [OF assms, of "[0..<length devs]" RaidState.NORMAL] by (auto simp: Raid10_GetRaidState_def)

lemma Raid10_group:
  assumes "physOk ps" "ppsChunksPerStripe ps = 2 * c" "ftOffset fba < 2 * c * ppsBlksPerChunk ps"
  shows "Raid10_GetRebuildGroup (Raid10_new ps) fba = [\<lparr>ftStripe = ftStripe fba,
    ftOffset = Raid10_GetMirrorIndex c (ftOffset fba div ppsBlksPerChunk ps) * ppsBlksPerChunk ps
      + ftOffset fba mod ppsBlksPerChunk ps\<rparr>]"
proof -
  let ?B = "ppsBlksPerChunk ps" and ?i = "ftOffset fba div ppsBlksPerChunk ps"
  note ok = physOkD [OF assms(1)]
  have i: "?i < 2 * c" using chunk_of_less [OF assms(3)] .
  have "Raid10_GetMirrorIndex c ?i * ?B + ftOffset fba mod ?B < 2 * c * ?B"
    using mirror_less [OF i] ok(1) by (intro mult_add_less) simp_all
  moreover have "ftOffset fba mod ?B < 2 ^ 32" using ok(1,6) by (meson mod_less_divisor order_less_trans)
  moreover have "?i < 2 ^ 32" using i ok(5) assms(2) by simp
  ultimately show ?thesis
    using assms(1,2) ok(4) by (cases fba) (simp add: Raid10_GetRebuildGroup_def Let_def)
qed

text \<open>What recovery relies on: with a stripe that is not lost, each block of a device that is not normal has a rebuild
  group on normal devices; a lost stripe has a block without one.\<close>

locale ft_redundant = ft_method +
  fixes fits :: "nat \<Rightarrow> bool"
  assumes state_total: "physOk ps \<Longrightarrow> fits (ppsChunksPerStripe ps) \<Longrightarrow> length devs = ppsChunksPerStripe ps \<Longrightarrow>
      \<exists>r. Method_GetRaidState (mk ps) devs = Inr r"
    and group_in_stripe: "physOk ps \<Longrightarrow> fits (ppsChunksPerStripe ps) \<Longrightarrow>
      ftOffset fba < ppsChunksPerStripe ps * ppsBlksPerChunk ps \<Longrightarrow> a \<in> set (Method_GetRebuildGroup (mk ps) fba) \<Longrightarrow>
      ftStripe a = ftStripe fba \<and> ftOffset a < ppsChunksPerStripe ps * ppsBlksPerChunk ps"
    and state_exact: "physOk ps \<Longrightarrow> fits (ppsChunksPerStripe ps) \<Longrightarrow> length devs = ppsChunksPerStripe ps \<Longrightarrow>
      Method_GetRaidState (mk ps) devs = Inr r \<Longrightarrow>
      r \<noteq> FAILURE \<longleftrightarrow> (\<forall>fba. ftOffset fba < ppsChunksPerStripe ps * ppsBlksPerChunk ps \<longrightarrow>
        devs ! (ftOffset fba div ppsBlksPerChunk ps) \<noteq> ArrayDeviceState.NORMAL \<longrightarrow>
        (\<forall>a\<in>set (Method_GetRebuildGroup (mk ps) fba). devs ! (ftOffset a div ppsBlksPerChunk ps) = ArrayDeviceState.NORMAL))"
begin

lemma block_readable:
  assumes "physOk ps" "fits (ppsChunksPerStripe ps)" "length devs = ppsChunksPerStripe ps"
    "Method_GetRaidState (mk ps) devs = Inr r" "r \<noteq> FAILURE"
    "Method_CheckNumofDevsToConfigure (mk ps) (ppsChunksPerStripe ps)" "lsaOffset l < dataBlks (mk ps)"
    "devs ! (ftOffset (Method_Translate (mk ps) l) div ppsBlksPerChunk ps) \<noteq> ArrayDeviceState.NORMAL"
    "a \<in> set (Method_GetRebuildGroup (mk ps) (Method_Translate (mk ps) l))"
  shows "devs ! (ftOffset a div ppsBlksPerChunk ps) = ArrayDeviceState.NORMAL"
  using state_exact [OF assms(1-4)] assms(5,8,9) in_stripe [OF assms(1,6,7)] stripe_size [OF assms(1,6)] by auto

end

lemma Raid5_state_exact:
  assumes "physOk ps" "length devs = ppsChunksPerStripe ps"
  shows "Raid5_GetRaidState devs \<noteq> FAILURE \<longleftrightarrow> (\<forall>fba. ftOffset fba < ppsChunksPerStripe ps * ppsBlksPerChunk ps \<longrightarrow>
    devs ! (ftOffset fba div ppsBlksPerChunk ps) \<noteq> ArrayDeviceState.NORMAL \<longrightarrow>
    (\<forall>a\<in>set (Raid5_GetRebuildGroup (ftSize (Raid5_new ps)) fba). devs ! (ftOffset a div ppsBlksPerChunk ps) = ArrayDeviceState.NORMAL))"
    (is "?L = ?R")
proof
  note ok = physOkD [OF assms(1)]
  assume L: ?L
  show ?R
  proof (intro allI impI ballI)
    fix fba a
    assume f: "ftOffset fba < ppsChunksPerStripe ps * ppsBlksPerChunk ps"
      and ab: "devs ! (ftOffset fba div ppsBlksPerChunk ps) \<noteq> ArrayDeviceState.NORMAL"
      and a: "a \<in> set (Raid5_GetRebuildGroup (ftSize (Raid5_new ps)) fba)"
    from a obtain i where "i < ppsChunksPerStripe ps" "i \<noteq> ftOffset fba div ppsBlksPerChunk ps"
      "ftOffset a div ppsBlksPerChunk ps = i"
      using ok(1) by (auto simp: GetRebuildGroup_nth [OF assms(1) f])
    with L ab show "devs ! (ftOffset a div ppsBlksPerChunk ps) = ArrayDeviceState.NORMAL"
      using chunk_of_less [OF f] assms(2) unfolding Raid5_failure_iff by metis
  qed
next
  note ok = physOkD [OF assms(1)]
  assume R: ?R
  show ?L unfolding Raid5_failure_iff
  proof (intro allI impI, rule ccontr)
    fix i j
    assume ij: "i < length devs" "j < length devs" "devs ! i \<noteq> ArrayDeviceState.NORMAL" "devs ! j \<noteq> ArrayDeviceState.NORMAL" "i \<noteq> j"
    let ?f = "\<lparr>ftStripe = 0, ftOffset = i * ppsBlksPerChunk ps\<rparr>"
    have f: "ftOffset ?f < ppsChunksPerStripe ps * ppsBlksPerChunk ps" using ij(1) assms(2) ok(1) by simp
    have "\<lparr>ftStripe = 0, ftOffset = j * ppsBlksPerChunk ps\<rparr> \<in> set (Raid5_GetRebuildGroup (ftSize (Raid5_new ps)) ?f)"
      using ij assms(2) ok(1) by (simp add: GetRebuildGroup_nth [OF assms(1) f] image_iff)
    then show False using R [rule_format, OF f] ij(3,4) ok(1) by fastforce
  qed
qed

interpretation raid5r: ft_redundant Raid5_new Raid5_CheckNumofDevsToConfigure
proof
  fix ps :: PartitionPhysicalSize and devs :: "ArrayDeviceState list" and fba a :: FtBlkAddr and r
  assume ok: "physOk ps" and "Raid5_CheckNumofDevsToConfigure (ppsChunksPerStripe ps)"
  {
    assume len: "length devs = ppsChunksPerStripe ps"
    show "\<exists>r. Method_GetRaidState (Raid5_new ps) devs = Inr r" by (simp add: Method_GetRaidState_def)
    assume "Method_GetRaidState (Raid5_new ps) devs = Inr r"
    then show "r \<noteq> FAILURE \<longleftrightarrow> (\<forall>fba. ftOffset fba < ppsChunksPerStripe ps * ppsBlksPerChunk ps \<longrightarrow>
        devs ! (ftOffset fba div ppsBlksPerChunk ps) \<noteq> ArrayDeviceState.NORMAL \<longrightarrow>
        (\<forall>a\<in>set (Method_GetRebuildGroup (Raid5_new ps) fba). devs ! (ftOffset a div ppsBlksPerChunk ps) = ArrayDeviceState.NORMAL))"
      using Raid5_state_exact [OF ok len] by (simp add: Method_GetRaidState_def Method_GetRebuildGroup_def)
  next
    assume f: "ftOffset fba < ppsChunksPerStripe ps * ppsBlksPerChunk ps" "a \<in> set (Method_GetRebuildGroup (Raid5_new ps) fba)"
    then show "ftStripe a = ftStripe fba \<and> ftOffset a < ppsChunksPerStripe ps * ppsBlksPerChunk ps"
      using physOkD(1) [OF ok] by (auto simp: Method_GetRebuildGroup_def GetRebuildGroup_nth [OF ok f(1)] intro!: mult_add_less)
  }
qed

lemma Raid10_group_set:
  assumes "physOk ps" "even (ppsChunksPerStripe ps)" "ftOffset fba < ppsChunksPerStripe ps * ppsBlksPerChunk ps"
  shows "set (Method_GetRebuildGroup (Raid10_new ps) fba) = {\<lparr>ftStripe = ftStripe fba,
    ftOffset = Raid10_GetMirrorIndex (ppsChunksPerStripe ps div 2) (ftOffset fba div ppsBlksPerChunk ps) * ppsBlksPerChunk ps
      + ftOffset fba mod ppsBlksPerChunk ps\<rparr>}"
  using Raid10_group [OF assms(1), of "ppsChunksPerStripe ps div 2" fba] assms(2,3)
  by (simp add: Method_GetRebuildGroup_def)

lemma Raid10_state_exact:
  assumes "physOk ps" "even (ppsChunksPerStripe ps)" "length devs = ppsChunksPerStripe ps"
    "Raid10_GetRaidState (ppsChunksPerStripe ps div 2) devs = Inr r"
  shows "r \<noteq> FAILURE \<longleftrightarrow> (\<forall>fba. ftOffset fba < ppsChunksPerStripe ps * ppsBlksPerChunk ps \<longrightarrow>
    devs ! (ftOffset fba div ppsBlksPerChunk ps) \<noteq> ArrayDeviceState.NORMAL \<longrightarrow>
    (\<forall>a\<in>set (Method_GetRebuildGroup (Raid10_new ps) fba). devs ! (ftOffset a div ppsBlksPerChunk ps) = ArrayDeviceState.NORMAL))"
    (is "_ \<longleftrightarrow> ?R")
proof -
  let ?c = "ppsChunksPerStripe ps div 2" and ?B = "ppsBlksPerChunk ps" and ?n = "ppsChunksPerStripe ps"
  let ?M = "\<lambda>i. devs ! i \<noteq> ArrayDeviceState.NORMAL \<longrightarrow> devs ! Raid10_GetMirrorIndex ?c i = ArrayDeviceState.NORMAL"
  note B = physOkD(1) [OF assms(1)]
  have "r \<noteq> FAILURE \<longleftrightarrow> (\<forall>i<?n. ?M i)"
    using Raid10_failure_iff [of devs ?c] assms(2-4) by auto
  also have "\<dots> \<longleftrightarrow> (\<forall>fba :: FtBlkAddr. ftOffset fba < ?n * ?B \<longrightarrow> ?M (ftOffset fba div ?B))"
  proof (intro iffI allI impI)
    fix i assume H: "\<forall>fba :: FtBlkAddr. ftOffset fba < ?n * ?B \<longrightarrow> ?M (ftOffset fba div ?B)" and "i < ?n"
      and "devs ! i \<noteq> ArrayDeviceState.NORMAL"
    then show "devs ! Raid10_GetMirrorIndex ?c i = ArrayDeviceState.NORMAL"
      using B H [rule_format, of "\<lparr>ftStripe = 0, ftOffset = i * ?B\<rparr>"] by simp
  qed (use chunk_of_less in blast)
  also have "\<dots> \<longleftrightarrow> ?R"
    using B by (simp add: Raid10_group_set [OF assms(1,2)] cong: imp_cong)
  finally show ?thesis .
qed

interpretation raid10r: ft_redundant Raid10_new even
proof
  fix ps :: PartitionPhysicalSize and devs :: "ArrayDeviceState list" and fba a :: FtBlkAddr and r
  assume ok: "physOk ps" and ev: "even (ppsChunksPerStripe ps)"
  let ?c = "ppsChunksPerStripe ps div 2" and ?B = "ppsBlksPerChunk ps" and ?n = "ppsChunksPerStripe ps"
  {
    assume len: "length devs = ?n"
    then show "\<exists>r. Method_GetRaidState (Raid10_new ps) devs = Inr r"
      using Raid10_failure_iff [of devs ?c] ev ok by (auto simp: Method_GetRaidState_def)
    assume "Method_GetRaidState (Raid10_new ps) devs = Inr r"
    then show "r \<noteq> FAILURE \<longleftrightarrow> (\<forall>fba. ftOffset fba < ?n * ?B \<longrightarrow> devs ! (ftOffset fba div ?B) \<noteq> ArrayDeviceState.NORMAL \<longrightarrow>
        (\<forall>a\<in>set (Method_GetRebuildGroup (Raid10_new ps) fba). devs ! (ftOffset a div ?B) = ArrayDeviceState.NORMAL))"
      using ok by (intro Raid10_state_exact [OF ok ev len]) (simp add: Method_GetRaidState_def)
  next
    assume f: "ftOffset fba < ?n * ?B" "a \<in> set (Method_GetRebuildGroup (Raid10_new ps) fba)"
    have "Raid10_GetMirrorIndex ?c (ftOffset fba div ?B) < ?n"
      using mirror_less [of "ftOffset fba div ?B" ?c] chunk_of_less [OF f(1)] ev by simp
    then show "ftStripe a = ftStripe fba \<and> ftOffset a < ?n * ?B"
      using f(2) physOkD(1) [OF ok] by (auto simp: Raid10_group_set [OF ok ev f(1)] intro!: mult_add_less)
  }
qed

text \<open>
  C26. The RAID state says exactly whether data is lost: \<open>GetRaidState\<close> of RAID 5 and RAID 10 returns a state for each
  combination of device states, and it is \<open>FAILURE\<close> just when some block on a device that is not normal has a
  member of its rebuild group on another device that is not normal.
\<close>

theorem raid_state_exact:
  assumes "physOk ps" "length devs = ppsChunksPerStripe ps"
    "meth = Raid5_new ps \<and> Raid5_CheckNumofDevsToConfigure (ppsChunksPerStripe ps) \<or>
     meth = Raid10_new ps \<and> even (ppsChunksPerStripe ps)"
  shows "\<exists>r. Method_GetRaidState meth devs = Inr r \<and>
    (r = FAILURE \<longleftrightarrow> (\<exists>fba. ftOffset fba < ppsChunksPerStripe ps * ppsBlksPerChunk ps \<and>
      devs ! (ftOffset fba div ppsBlksPerChunk ps) \<noteq> ArrayDeviceState.NORMAL \<and>
      (\<exists>a\<in>set (Method_GetRebuildGroup meth fba). devs ! (ftOffset a div ppsBlksPerChunk ps) \<noteq> ArrayDeviceState.NORMAL)))"
  using assms(3)
proof (elim disjE conjE)
  assume m: "meth = Raid5_new ps" and f: "Raid5_CheckNumofDevsToConfigure (ppsChunksPerStripe ps)"
  obtain r where r: "Method_GetRaidState (Raid5_new ps) devs = Inr r" using raid5r.state_total [OF assms(1) f assms(2)] by blast
  show ?thesis unfolding m using r raid5r.state_exact [OF assms(1) f assms(2) r] by blast
next
  assume m: "meth = Raid10_new ps" and f: "even (ppsChunksPerStripe ps)"
  obtain r where r: "Method_GetRaidState (Raid10_new ps) devs = Inr r" using raid10r.state_total [OF assms(1) f assms(2)] by blast
  show ?thesis unfolding m using r raid10r.state_exact [OF assms(1) f assms(2) r] by blast
qed

theorem raid_state_exact_witness:
  "\<exists>fba. ftOffset fba < 3 \<and> [FAULT, ArrayDeviceState.NORMAL, REBUILD] ! ftOffset fba \<noteq> ArrayDeviceState.NORMAL \<and>
     (\<exists>a\<in>set (Method_GetRebuildGroup (Raid5_new samplePhys) fba).
       [FAULT, ArrayDeviceState.NORMAL, REBUILD] ! ftOffset a \<noteq> ArrayDeviceState.NORMAL)"
proof -
  let ?ds = "[FAULT, ArrayDeviceState.NORMAL, REBUILD]"
  have s: "Method_GetRaidState (Raid5_new samplePhys) ?ds = Inr FAILURE"
    by (simp add: Method_GetRaidState_def Raid5_GetRaidState_def)
  have p: "physOk samplePhys" "length ?ds = ppsChunksPerStripe samplePhys" "Raid5_CheckNumofDevsToConfigure (ppsChunksPerStripe samplePhys)"
    by (simp_all add: physOk_def samplePhys_def Raid5_CheckNumofDevsToConfigure_def)
  have "ppsChunksPerStripe samplePhys = 3" "ppsBlksPerChunk samplePhys = 1" by (simp_all add: samplePhys_def)
  then show ?thesis
    using raid_state_exact [OF p(1,2), of "Raid5_new samplePhys"] p(3) s by simp
qed

end
