(* ===== verification/Partition.thy ===== *)
theory Partition
  imports Raid
begin

text \<open>
  Partitions of an array (\<^verbatim>\<open>src/array/partition\<close>): the NVM partitions, the striped SSD partitions with their
  fault tolerance method, the builders that lay them out on the devices and the manager that holds them.
  A partition translates logical block addresses into a device and a sector (\<open>Translate\<close>, the read path) and
  logical writes into writes of each device (\<open>Convert\<close>, the write path).

  Devices are numbers, which stand for the pointers of the sources; their size in bytes, their state and the byte
  address of an NVM device are functions of them. Sizes and sectors are natural numbers with the 32 bit
  products of the sources written out.
\<close>

section \<open>Types\<close>

datatype PartitionType = META_NVM | WRITE_BUFFER | META_SSD | USER_DATA | JOURNAL_SSD

record PhysicalBlkAddr =
  lba :: nat
  arrayDev :: nat

record PhysicalByteAddr =
  byteAddress :: nat
  byteDev :: nat

record LogicalByteAddr =
  blkAddr :: LogicalBlkAddr
  byteOffset :: nat
  byteSize :: nat

record LogicalByteWriteEntry =
  lbwAddr :: LogicalByteAddr
  lbwByteCnt :: nat
  lbwBuffers :: "BufferEntry list"

record PhysicalWriteEntry =
  pweAddr :: PhysicalBlkAddr
  pweBlkCnt :: nat
  pweBuffers :: "BufferEntry list"

record PhysicalByteWriteEntry =
  pbwAddr :: PhysicalByteAddr
  pbwByteCnt :: nat
  pbwBuffers :: "BufferEntry list"

record Partition =
  logicalSize :: PartitionLogicalSize
  physicalSize :: PartitionPhysicalSize
  devs :: "nat list"
  lastLba :: nat
  partType :: PartitionType

record StripePartition = Partition +
  raidType :: RaidTypeEnum
  ftMethod :: "Method option"
  parityPools :: "BufferPool list"

abbreviation (input) SECTORS_PER_BLOCK :: nat where
  "SECTORS_PER_BLOCK \<equiv> 8"

abbreviation (input) SECTOR_SIZE_BYTE :: nat where
  "SECTOR_SIZE_BYTE \<equiv> 512"

abbreviation (input) STRIPES_PER_SEGMENT_SSD :: nat where
  "STRIPES_PER_SEGMENT_SSD \<equiv> 1024"

abbreviation (input) SSD_SEGMENT_SIZE_BYTE :: nat where
  "SSD_SEGMENT_SIZE_BYTE \<equiv> 268435456"

abbreviation (input) SSD_PARTITION_START_LBA :: nat where
  "SSD_PARTITION_START_LBA \<equiv> 524288"

abbreviation (input) NVM_START_LBA :: nat where
  "NVM_START_LBA \<equiv> 512"

abbreviation (input) META_NVM_SIZE :: nat where
  "META_NVM_SIZE \<equiv> 536870912"

abbreviation (input) ARRAY_DEVICE_COUNT_ERROR :: int where
  "ARRAY_DEVICE_COUNT_ERROR \<equiv> 2505"

abbreviation (input) ARRAY_PARTITION_CREATION_ERROR :: int where
  "ARRAY_PARTITION_CREATION_ERROR \<equiv> 2513"

abbreviation (input) ARRAY_INVALID_ADDRESS_ERROR :: int where
  "ARRAY_INVALID_ADDRESS_ERROR \<equiv> 2516"

abbreviation (input) RECOVER_INVALID_LBA :: int where
  "RECOVER_INVALID_LBA \<equiv> 2713"

definition DIV_ROUND_UP :: "nat \<Rightarrow> nat \<Rightarrow> nat" where
  "DIV_ROUND_UP n d = u64 (n + d - 1) div d"

section \<open>Base class\<close>

text \<open>The position of a device, -1 when it is not in the partition.\<close>

fun FindDevice_loop :: "nat \<Rightarrow> nat list \<Rightarrow> int \<Rightarrow> int" where
  "FindDevice_loop target [] i = - 1"
| "FindDevice_loop target (dev # ds) i = (if dev = target then i else FindDevice_loop target ds (i + 1))"

definition Partition_FindDevice :: "nat \<Rightarrow> ('a) Partition_scheme \<Rightarrow> int" where
  "Partition_FindDevice target p = FindDevice_loop target (devs p) 0"

definition Partition_IsValidLba :: "nat \<Rightarrow> ('a) Partition_scheme \<Rightarrow> bool" where
  "Partition_IsValidLba l p = (\<not> (startLba (physicalSize p) > l \<or> lastLba p \<le> l))"

definition Partition_IsValidAddress :: "LogicalBlkAddr \<Rightarrow> ('a) Partition_scheme \<Rightarrow> bool" where
  "Partition_IsValidAddress lsa p =
     (lsaStripe lsa < totalStripes (logicalSize p) \<and> lsaOffset lsa < plsBlksPerStripe (logicalSize p))"

definition Partition_IsValidEntry :: "LogicalWriteEntry \<Rightarrow> ('a) Partition_scheme \<Rightarrow> bool" where
  "Partition_IsValidEntry entry p =
     (lsaStripe (lweAddr entry) < totalStripes (logicalSize p) \<and>
      lsaOffset (lweAddr entry) + lweBlkCnt entry \<le> plsBlksPerStripe (logicalSize p) \<and>
      lweBlkCnt entry \<ge> minWriteBlkCnt (logicalSize p))"

definition Partition_UpdateLastLba :: "('a) Partition_scheme \<Rightarrow> ('a) Partition_scheme" where
  "Partition_UpdateLastLba p =
     p\<lparr>lastLba := u64 (startLba (physicalSize p) + SECTORS_PER_BLOCK * ppsBlksPerChunk (physicalSize p) *
        ppsStripesPerSegment (physicalSize p) * ppsTotalSegments (physicalSize p))\<rparr>"

section \<open>NVM partitions\<close>

definition NvmPartition_SetPhysicalAddress :: "(nat \<Rightarrow> nat) \<Rightarrow> nat \<Rightarrow> nat \<Rightarrow> Partition \<Rightarrow> Partition" where
  "NvmPartition_SetPhysicalAddress devSize start blksPerChunk p =
     (let ps = (physicalSize p)\<lparr>startLba := start, ppsBlksPerChunk := blksPerChunk, ppsChunksPerStripe := 1,
                 ppsTotalSegments := 1\<rparr>
      in p\<lparr>physicalSize :=
           (case partType p of
              WRITE_BUFFER \<Rightarrow> ps\<lparr>ppsStripesPerSegment := u32 (u64 (devSize (hd (devs p)) div BLOCK_SIZE_BYTE + 2 ^ 64
                 - DIV_ROUND_UP start SECTORS_PER_BLOCK) div blksPerChunk)\<rparr>
            | META_NVM \<Rightarrow> ps\<lparr>ppsStripesPerSegment :=
                 u32 (META_NVM_SIZE div u32 (BLOCK_SIZE_BYTE * blksPerChunk * ppsChunksPerStripe ps))\<rparr>
            | _ \<Rightarrow> ps)\<rparr>)"

definition NvmPartition_SetLogicalAddress :: "Partition \<Rightarrow> Partition" where
  "NvmPartition_SetLogicalAddress p =
     (let ps = physicalSize p; total = u32 (ppsStripesPerSegment ps * ppsTotalSegments ps)
      in p\<lparr>logicalSize :=
         \<lparr>minWriteBlkCnt = 1, plsBlksPerChunk = ppsBlksPerChunk ps,
          plsBlksPerStripe = u32 (ppsBlksPerChunk ps * ppsChunksPerStripe ps), plsChunksPerStripe = ppsChunksPerStripe ps,
          plsStripesPerSegment = total div ppsTotalSegments ps, totalStripes = total,
          totalSegments = ppsTotalSegments ps\<rparr>\<rparr>)"

definition NvmPartition_Create :: "(nat \<Rightarrow> nat) \<Rightarrow> nat \<Rightarrow> nat \<Rightarrow> Partition \<Rightarrow> int \<times> Partition" where
  "NvmPartition_Create devSize start blksPerChunk p =
     (0, NvmPartition_SetLogicalAddress (Partition_UpdateLastLba (NvmPartition_SetPhysicalAddress devSize start blksPerChunk p)))"

definition NvmPartition_Translate :: "LogicalBlkAddr \<Rightarrow> Partition \<Rightarrow> int + PhysicalBlkAddr" where
  "NvmPartition_Translate src p =
     (if \<not> Partition_IsValidAddress src p then Inl ARRAY_INVALID_ADDRESS_ERROR
      else Inr \<lparr>lba = u64 (startLba (physicalSize p) +
                     (u32 (lsaStripe src * plsBlksPerStripe (logicalSize p)) + lsaOffset src) * SECTORS_PER_BLOCK),
                arrayDev = hd (devs p)\<rparr>)"

definition NvmPartition_IsValidByteAddress :: "LogicalByteAddr \<Rightarrow> Partition \<Rightarrow> bool" where
  "NvmPartition_IsValidByteAddress lsa p =
     (let start_blk_offset = lsaOffset (blkAddr lsa) + byteOffset lsa div BLOCK_SIZE_BYTE;
          start_stripe_id = lsaStripe (blkAddr lsa) + start_blk_offset div plsBlksPerStripe (logicalSize p);
          end_blk_offset = lsaOffset (blkAddr lsa) + u32 (byteOffset lsa + byteSize lsa) div BLOCK_SIZE_BYTE;
          end_stripe_id = lsaStripe (blkAddr lsa) + end_blk_offset div plsBlksPerStripe (logicalSize p)
      in lsaStripe (blkAddr lsa) < totalStripes (logicalSize p) \<and> lsaOffset (blkAddr lsa) < plsBlksPerStripe (logicalSize p) \<and>
         start_blk_offset < plsBlksPerStripe (logicalSize p) \<and> end_blk_offset < plsBlksPerStripe (logicalSize p) \<and>
         byteOffset lsa < BLOCK_SIZE_BYTE \<and>
         start_stripe_id < totalStripes (logicalSize p) \<and> end_stripe_id < totalStripes (logicalSize p) \<and>
         start_stripe_id = end_stripe_id)"

definition NvmPartition_ByteTranslate :: "(nat \<Rightarrow> nat) \<Rightarrow> LogicalByteAddr \<Rightarrow> Partition \<Rightarrow> int + PhysicalByteAddr" where
  "NvmPartition_ByteTranslate base src p =
     (if \<not> NvmPartition_IsValidByteAddress src p then Inl ARRAY_INVALID_ADDRESS_ERROR
      else Inr \<lparr>byteAddress = u64 (base (hd (devs p)) + (startLba (physicalSize p) +
                  (u32 (lsaStripe (blkAddr src) * plsBlksPerStripe (logicalSize p)) + lsaOffset (blkAddr src)) *
                  SECTORS_PER_BLOCK) * SECTOR_SIZE_BYTE + byteOffset src),
                byteDev = hd (devs p)\<rparr>)"

text \<open>\<open>junk\<close> is what the local variable for the address holds when the translation fails.\<close>

definition NvmPartition_Convert :: "PhysicalBlkAddr \<Rightarrow> LogicalWriteEntry \<Rightarrow> Partition \<Rightarrow> int + PhysicalWriteEntry list" where
  "NvmPartition_Convert junk src p =
     (if \<not> Partition_IsValidEntry src p then Inl ARRAY_INVALID_ADDRESS_ERROR
      else Inr [\<lparr>pweAddr = (case NvmPartition_Translate (lweAddr src) p of Inl e \<Rightarrow> junk | Inr addr \<Rightarrow> addr),
                 pweBlkCnt = lweBlkCnt src, pweBuffers = lweBuffers src\<rparr>])"

definition NvmPartition_IsValidByteEntry :: "LogicalByteWriteEntry \<Rightarrow> Partition \<Rightarrow> bool" where
  "NvmPartition_IsValidByteEntry entry p =
     (let a = lbwAddr entry;
          start_blk_offset = lsaOffset (blkAddr a) + byteOffset a div BLOCK_SIZE_BYTE;
          start_stripe_id = lsaStripe (blkAddr a) + start_blk_offset div plsBlksPerStripe (logicalSize p);
          end_blk_offset = lsaOffset (blkAddr a) + u32 (byteOffset a + byteSize a) div BLOCK_SIZE_BYTE;
          end_stripe_id = lsaStripe (blkAddr a) + end_blk_offset div plsBlksPerStripe (logicalSize p)
      in lsaStripe (blkAddr a) < totalStripes (logicalSize p) \<and> lsaOffset (blkAddr a) < plsBlksPerStripe (logicalSize p) \<and>
         end_blk_offset < plsBlksPerStripe (logicalSize p) \<and> byteOffset a < BLOCK_SIZE_BYTE \<and>
         end_stripe_id < totalStripes (logicalSize p) \<and> start_stripe_id = end_stripe_id)"

definition NvmPartition_ByteConvert ::
    "PhysicalByteAddr \<Rightarrow> (nat \<Rightarrow> nat) \<Rightarrow> LogicalByteWriteEntry \<Rightarrow> Partition \<Rightarrow> int + PhysicalByteWriteEntry list" where
  "NvmPartition_ByteConvert junk base src p =
     (if \<not> NvmPartition_IsValidByteEntry src p then Inl ARRAY_INVALID_ADDRESS_ERROR
      else Inr [\<lparr>pbwAddr = (case NvmPartition_ByteTranslate base (lbwAddr src) p of Inl e \<Rightarrow> junk | Inr addr \<Rightarrow> addr),
                 pbwByteCnt = lbwByteCnt src, pbwBuffers = lbwBuffers src\<rparr>])"

section \<open>Striped partitions\<close>

definition StripePartition_SetPhysicalAddress :: "nat \<Rightarrow> nat \<Rightarrow> StripePartition \<Rightarrow> StripePartition" where
  "StripePartition_SetPhysicalAddress start segCnt p =
     p\<lparr>physicalSize := \<lparr>startLba = start, ppsBlksPerChunk = BLOCKS_PER_CHUNK, ppsChunksPerStripe = length (devs p),
        ppsStripesPerSegment = STRIPES_PER_SEGMENT_SSD, ppsTotalSegments = segCnt\<rparr>\<rparr>"

definition StripePartition_SetLogicalAddress :: "Method \<Rightarrow> StripePartition \<Rightarrow> StripePartition" where
  "StripePartition_SetLogicalAddress meth p =
     (let s = ftSize meth; ps = physicalSize p
      in p\<lparr>logicalSize :=
         \<lparr>minWriteBlkCnt = ftMinWriteBlkCnt s, plsBlksPerChunk = ftBlksPerChunk s,
          plsBlksPerStripe = u32 (ftBlksPerStripe s + 2 ^ 32 - backupBlkCnt s),
          plsChunksPerStripe = u32 (ftChunksPerStripe s + 2 ^ 32 - backupBlkCnt s div ftBlksPerChunk s),
          plsStripesPerSegment = ppsStripesPerSegment ps,
          totalStripes = u32 (ppsStripesPerSegment ps * ppsTotalSegments ps), totalSegments = ppsTotalSegments ps\<rparr>\<rparr>)"

text \<open>
  \<open>create\<close> is the answer of the memory manager for the parity pools of RAID 5, given their size and the node;
  \<open>numaCount\<close> is the number of nodes.
\<close>

definition StripePartition_SetMethod ::
    "(nat \<Rightarrow> nat \<Rightarrow> BufferPool option) \<Rightarrow> nat \<Rightarrow> nat \<Rightarrow> StripePartition \<Rightarrow> int \<times> StripePartition" where
  "StripePartition_SetMethod create numaCount totalNvmBlks p =
     (let ps = physicalSize p;
          check = (\<lambda>meth p1. if \<not> Method_CheckNumofDevsToConfigure meth (length (devs p))
                            then (ARRAY_DEVICE_COUNT_ERROR, p1\<lparr>ftMethod := None, parityPools := []\<rparr>) else (0, p1\<lparr>ftMethod := Some meth\<rparr>))
      in case raidType p of
           RAID0 \<Rightarrow> check (Raid0_new ps) p
         | RAID10 \<Rightarrow> check (Raid10_new ps) p
         | RAID5 \<Rightarrow> (let totalNvmStripes = totalNvmBlks div (ppsBlksPerChunk ps * ppsChunksPerStripe ps);
                        (ok, pools) = Raid5_AllocParityPools (create (totalNvmStripes + 2048)) numaCount
                    in if \<not> ok then (ARRAY_PARTITION_CREATION_ERROR, p)
                       else check (Raid5_new ps) (p\<lparr>parityPools := pools\<rparr>))
         | NONE \<Rightarrow> check (RaidNone_new ps) p)"

definition StripePartition_Create ::
    "(nat \<Rightarrow> nat \<Rightarrow> BufferPool option) \<Rightarrow> nat \<Rightarrow> nat \<Rightarrow> nat \<Rightarrow> nat \<Rightarrow> StripePartition \<Rightarrow> int \<times> StripePartition" where
  "StripePartition_Create create numaCount start segCnt totalNvmBlks p =
     (let p1 = (if raidType p = RAID10 \<and> length (devs p) mod 2 \<noteq> 0 then p\<lparr>devs := butlast (devs p)\<rparr> else p);
          p2 = Partition_UpdateLastLba (StripePartition_SetPhysicalAddress start segCnt p1);
          (ret, p3) = StripePartition_SetMethod create numaCount totalNvmBlks p2
      in case ftMethod p3 of
           Some meth \<Rightarrow> if ret \<noteq> 0 then (ret, p3) else (0, StripePartition_SetLogicalAddress meth p3)
         | None \<Rightarrow> (ret, p3))"

text \<open>
  From an address of the method to a sector of a device and back. The product of the first is one of two 32 bit
  numbers.
\<close>

definition StripePartition_F2PTranslate :: "StripePartition \<Rightarrow> FtBlkAddr \<Rightarrow> PhysicalBlkAddr result" where
  "StripePartition_F2PTranslate p fba =
     (let B = ppsBlksPerChunk (physicalSize p); chunkIndex = u32 (ftOffset fba div B)
      in if chunkIndex < length (devs p)
         then Inr \<lparr>lba = u64 (startLba (physicalSize p) + (u32 (ftStripe fba * B) + ftOffset fba mod B) * SECTORS_PER_BLOCK),
                   arrayDev = devs p ! chunkIndex\<rparr>
         else Inl Exception)"

definition StripePartition_P2FTranslate :: "StripePartition \<Rightarrow> PhysicalBlkAddr \<Rightarrow> FtBlkAddr result" where
  "StripePartition_P2FTranslate p pba =
     (let chunkIndex = FindDevice_loop (arrayDev pba) (devs p) 0; B = ppsBlksPerChunk (physicalSize p)
      in andThen (assertion (chunkIndex \<noteq> - 1)) (\<lambda>_.
           let ptnBlkOffset = u64 (lba pba + 2 ^ 64 - startLba (physicalSize p)) div SECTORS_PER_BLOCK
           in Inr \<lparr>ftStripe = u32 (ptnBlkOffset div B), ftOffset = u32 (nat chunkIndex * B) + ptnBlkOffset mod B\<rparr>))"

definition StripePartition_Translate :: "LogicalBlkAddr \<Rightarrow> StripePartition \<Rightarrow> (int + PhysicalBlkAddr) result" where
  "StripePartition_Translate src p =
     (if \<not> Partition_IsValidAddress src p then Inr (Inl ARRAY_INVALID_ADDRESS_ERROR)
      else case ftMethod p of
             None \<Rightarrow> Inl Exception
           | Some meth \<Rightarrow> andThen (StripePartition_F2PTranslate p (Method_Translate meth src)) (\<lambda>a. Inr (Inr a)))"

text \<open>The loop of \<open>_SpliceBuffer\<close> over the buffers, which leaves \<open>start\<close> as it is.\<close>

fun StripePartition_SpliceBuffer :: "BufferEntry list \<Rightarrow> nat \<Rightarrow> nat \<Rightarrow> nat \<Rightarrow> BufferEntry list" where
  "StripePartition_SpliceBuffer [] start remain offset = []"
| "StripePartition_SpliceBuffer (b # bs) start remain offset =
     (if offset \<le> start \<and> u32 (offset + blkCnt b) > start
      then let gap = start - offset; cnt = blkCnt b - gap; split = b\<lparr>buffer := buffer b + gap * BLOCK_SIZE_BYTE\<rparr>
           in if cnt \<ge> remain then [split\<lparr>blkCnt := remain\<rparr>]
              else split\<lparr>blkCnt := cnt\<rparr> # StripePartition_SpliceBuffer bs start (remain - cnt) (u32 (offset + blkCnt b))
      else StripePartition_SpliceBuffer bs start remain (u32 (offset + blkCnt b)))"

text \<open>The loop of \<open>_ConvertToPhysical\<close> over the chunks.\<close>

fun ConvertToPhysical_loop ::
    "StripePartition \<Rightarrow> BufferEntry list \<Rightarrow> nat \<Rightarrow> nat \<Rightarrow> nat \<Rightarrow> nat list \<Rightarrow> nat \<Rightarrow> nat \<Rightarrow> PhysicalWriteEntry list result" where
  "ConvertToPhysical_loop p bufs stripeLba chunkEnd endOffset [] startOffset bufferOffset = Inr []"
| "ConvertToPhysical_loop p bufs stripeLba chunkEnd endOffset (i # is) startOffset bufferOffset =
     (if i < length (devs p)
      then let cnt = (if i \<noteq> chunkEnd then u32 (ppsBlksPerChunk (physicalSize p) + 2 ^ 32 - startOffset)
                      else u32 (endOffset + 2 ^ 32 - startOffset + 1));
               entry = \<lparr>pweAddr = \<lparr>lba = u64 (stripeLba + u32 (startOffset * SECTORS_PER_BLOCK)), arrayDev = devs p ! i\<rparr>,
                        pweBlkCnt = cnt, pweBuffers = StripePartition_SpliceBuffer bufs bufferOffset cnt 0\<rparr>
           in andThen (ConvertToPhysical_loop p bufs stripeLba chunkEnd endOffset is
                  (if i \<noteq> chunkEnd then 0 else startOffset) (u32 (bufferOffset + cnt))) (\<lambda>es. Inr (entry # es))
      else Inl Exception)"

definition StripePartition_ConvertToPhysical :: "StripePartition \<Rightarrow> FtWriteEntry \<Rightarrow> PhysicalWriteEntry list result" where
  "StripePartition_ConvertToPhysical p e =
     (let chunkSize = ppsBlksPerChunk (physicalSize p);
          firstOffset = u32 (ftOffset (fweAddr e));
          lastOffset = u32 (firstOffset + fweBlkCnt e + 2 ^ 32 - 1);
          chunkStart = firstOffset div chunkSize; chunkEnd = lastOffset div chunkSize;
          stripeLba = u64 (startLba (physicalSize p) + ftStripe (fweAddr e) * chunkSize * SECTORS_PER_BLOCK)
      in ConvertToPhysical_loop p (fweBuffers e) stripeLba chunkEnd (lastOffset - chunkSize * chunkEnd)
           [chunkStart..<Suc chunkEnd] (firstOffset - chunkSize * chunkStart) 0)"

fun ConvertAll :: "StripePartition \<Rightarrow> FtWriteEntry list \<Rightarrow> PhysicalWriteEntry list result" where
  "ConvertAll p [] = Inr []"
| "ConvertAll p (e # es) =
     andThen (StripePartition_ConvertToPhysical p e) (\<lambda>xs. andThen (ConvertAll p es) (\<lambda>ys. Inr (xs @ ys)))"

definition StripePartition_Convert ::
    "nat \<Rightarrow> LogicalWriteEntry \<Rightarrow> StripePartition \<times> memory \<Rightarrow> (int + PhysicalWriteEntry list \<times> StripePartition \<times> memory) result" where
  "StripePartition_Convert numa src = (\<lambda>(p, m).
     if \<not> Partition_IsValidEntry src p then Inr (Inl ARRAY_INVALID_ADDRESS_ERROR)
     else case ftMethod p of
            None \<Rightarrow> Inl Exception
          | Some meth \<Rightarrow> andThen (Method_Convert numa meth src (parityPools p, m)) (\<lambda>(ftEntries, pools, m1).
              andThen (ConvertAll p ftEntries) (\<lambda>dst. Inr (Inr (dst, p\<lparr>parityPools := pools\<rparr>, m1)))))"

fun F2PAll :: "StripePartition \<Rightarrow> FtBlkAddr list \<Rightarrow> PhysicalBlkAddr list result" where
  "F2PAll p [] = Inr []"
| "F2PAll p (a # as) = andThen (StripePartition_F2PTranslate p a) (\<lambda>x. andThen (F2PAll p as) (\<lambda>xs. Inr (x # xs)))"

definition StripePartition_GetRebuildGroup :: "StripePartition \<Rightarrow> Method \<Rightarrow> FtBlkAddr \<Rightarrow> PhysicalBlkAddr list result" where
  "StripePartition_GetRebuildGroup p meth fba = F2PAll p (Method_GetRebuildGroup meth fba)"

text \<open>The address of a request is rounded down to a block before it is translated back.\<close>

definition StripePartition_GetRecoverMethod :: "PhysicalBlkAddr \<Rightarrow> StripePartition \<Rightarrow>
    (int + PhysicalBlkAddr list \<times> (nat \<Rightarrow> nat \<Rightarrow> nat \<Rightarrow> memory \<Rightarrow> memory) option) result" where
  "StripePartition_GetRecoverMethod pba p =
     (if Partition_IsValidLba (lba pba) p \<and> Partition_FindDevice (arrayDev pba) p \<ge> 0
      then let originPba = pba\<lparr>lba := u64 (lba pba * SECTOR_SIZE_BYTE) div BLOCK_SIZE_BYTE * SECTORS_PER_BLOCK\<rparr>
           in case ftMethod p of
                None \<Rightarrow> Inl Exception
              | Some meth \<Rightarrow> andThen (StripePartition_P2FTranslate p originPba) (\<lambda>fba.
                  andThen (StripePartition_GetRebuildGroup p meth fba) (\<lambda>srcAddr.
                    Inr (Inr (srcAddr, Method_recoverFunc meth))))
      else Inr (Inl RECOVER_INVALID_LBA))"

definition StripePartition_GetRaidState :: "(nat \<Rightarrow> ArrayDeviceState) \<Rightarrow> StripePartition \<Rightarrow> RaidState result" where
  "StripePartition_GetRaidState devState p =
     (case ftMethod p of
        None \<Rightarrow> Inl Exception
      | Some meth \<Rightarrow> Method_GetRaidState meth (map devState (devs p)))"

section \<open>Builders\<close>

text \<open>The smallest device that is not faulty; a null pointer is used when there is none.\<close>

definition SsdPartitionBuilder_GetMinCapacity ::
    "(nat \<Rightarrow> nat) \<Rightarrow> (nat \<Rightarrow> ArrayDeviceState) \<Rightarrow> nat list \<Rightarrow> nat result" where
  "SsdPartitionBuilder_GetMinCapacity devSize devState ds =
     (case filter (\<lambda>d. devState d \<noteq> FAULT) ds of
        [] \<Rightarrow> Inl Exception
      | l \<Rightarrow> Inr (Min (set (map devSize l))))"

definition SsdPartitionBuilder_GetSegmentCount ::
    "(nat \<Rightarrow> nat) \<Rightarrow> (nat \<Rightarrow> ArrayDeviceState) \<Rightarrow> PartitionType \<Rightarrow> nat list \<Rightarrow> nat result" where
  "SsdPartitionBuilder_GetSegmentCount devSize devState ptype ds =
     (if ptype = JOURNAL_SSD then Inr 1
      else andThen (SsdPartitionBuilder_GetMinCapacity devSize devState ds) (\<lambda>baseCapa.
        let ssdTotalSegments = baseCapa div SSD_SEGMENT_SIZE_BYTE;
            metaSegCnt = DIV_ROUND_UP (ssdTotalSegments * 2) 100
        in if ptype = META_SSD then Inr (u32 metaSegCnt)
           else if ptype = USER_DATA then Inr (u32 (u64 (ssdTotalSegments + 2 ^ 64 - 1 - metaSegCnt)))
           else Inr 0))"

definition StripePartition_new :: "PartitionType \<Rightarrow> nat list \<Rightarrow> RaidTypeEnum \<Rightarrow> StripePartition" where
  "StripePartition_new ptype ds raid =
     \<lparr>logicalSize = \<lparr>minWriteBlkCnt = 0, plsBlksPerChunk = 0, plsBlksPerStripe = 0, plsChunksPerStripe = 0,
        plsStripesPerSegment = 0, totalStripes = 0, totalSegments = 0\<rparr>,
      physicalSize = \<lparr>startLba = 0, ppsBlksPerChunk = 0, ppsChunksPerStripe = 0, ppsStripesPerSegment = 0, ppsTotalSegments = 0\<rparr>,
      devs = ds, lastLba = 0, partType = ptype, raidType = raid, ftMethod = None, parityPools = []\<rparr>"

text \<open>A chain of builders, each starting at the last sector of the one before.\<close>

fun SsdPartitionBuilder_Build ::
    "(nat \<Rightarrow> nat \<Rightarrow> BufferPool option) \<Rightarrow> nat \<Rightarrow> (nat \<Rightarrow> nat) \<Rightarrow> (nat \<Rightarrow> ArrayDeviceState) \<Rightarrow> nat option \<Rightarrow> nat list \<Rightarrow>
     (PartitionType \<times> RaidTypeEnum) list \<Rightarrow> nat \<Rightarrow> StripePartition list \<Rightarrow> (int \<times> StripePartition list) result" where
  "SsdPartitionBuilder_Build create numaCount devSize devState nvm ds [] start out = Inr (0, out)"
| "SsdPartitionBuilder_Build create numaCount devSize devState nvm ds ((ptype, raid) # next) start out =
     andThen (SsdPartitionBuilder_GetSegmentCount devSize devState ptype ds) (\<lambda>segCnt.
       let totalNvmBlks = (case nvm of None \<Rightarrow> 0 | Some d \<Rightarrow> devSize d div BLOCK_SIZE_BYTE);
           (ret, part) = StripePartition_Create create numaCount start segCnt totalNvmBlks (StripePartition_new ptype ds raid)
       in if ret \<noteq> 0 then Inr (ret, out)
          else SsdPartitionBuilder_Build create numaCount devSize devState nvm ds next (lastLba part) (out @ [part]))"

definition PartitionFactory_SplitSsdPartitions ::
    "(nat \<Rightarrow> nat \<Rightarrow> BufferPool option) \<Rightarrow> nat \<Rightarrow> (nat \<Rightarrow> nat) \<Rightarrow> (nat \<Rightarrow> ArrayDeviceState) \<Rightarrow> nat option \<Rightarrow> nat list \<Rightarrow>
     RaidTypeEnum \<Rightarrow> RaidTypeEnum \<Rightarrow> (int \<times> StripePartition list) result" where
  "PartitionFactory_SplitSsdPartitions create numaCount devSize devState nvm ds metaRaid dataRaid =
     SsdPartitionBuilder_Build create numaCount devSize devState nvm ds [(META_SSD, metaRaid), (USER_DATA, dataRaid)]
       SSD_PARTITION_START_LBA []"

section \<open>Created partitions\<close>

definition methodOf :: "RaidTypeEnum \<Rightarrow> PartitionPhysicalSize \<Rightarrow> Method" where
  "methodOf r = (case r of NONE \<Rightarrow> RaidNone_new | RAID0 \<Rightarrow> Raid0_new | RAID5 \<Rightarrow> Raid5_new | RAID10 \<Rightarrow> Raid10_new)"

lemma methodOf_ft: "ft_method (methodOf r)"
  by (cases r) (simp_all add: methodOf_def raid5.ft_method_axioms raid10.ft_method_axioms raid0.ft_method_axioms
      raidnone.ft_method_axioms)

text \<open>
  A partition that \<open>Create\<close> has made on different devices, with sizes that fit the 32 bit stripe numbers and the 64 bit
  sectors.
\<close>

definition created :: "StripePartition \<Rightarrow> bool" where
  "created q \<longleftrightarrow> (\<exists>create numaCount start segCnt totalNvmBlks ptype ds raid.
     StripePartition_Create create numaCount start segCnt totalNvmBlks (StripePartition_new ptype ds raid) = (0, q) \<and>
     distinct ds \<and> length ds < 2 ^ 26 \<and> segCnt < 2 ^ 22 \<and> start + 524288 * segCnt < 2 ^ 64)"

lemma SetMethod_ok:
  assumes "StripePartition_SetMethod create numaCount totalNvmBlks p = (0, q)" "ftMethod p = None"
  shows "ftMethod q = Some (methodOf (raidType p) (physicalSize p)) \<and> physicalSize q = physicalSize p \<and>
    devs q = devs p \<and> raidType q = raidType p \<and> lastLba q = lastLba p \<and> partType q = partType p \<and>
    Method_CheckNumofDevsToConfigure (methodOf (raidType p) (physicalSize p)) (length (devs p))"
  using assms
  by (cases "raidType p") (auto simp: StripePartition_SetMethod_def methodOf_def Let_def split: if_splits prod.splits)

lemma new_fields:
  "devs (StripePartition_new ptype ds raid) = ds" "raidType (StripePartition_new ptype ds raid) = raid"
  by (simp_all add: StripePartition_new_def)

lemma Create_ok:
  assumes "StripePartition_Create create numaCount start segCnt totalNvmBlks (StripePartition_new ptype ds raid) = (0, q)"
  shows "ftMethod q = Some (methodOf raid (physicalSize q)) \<and> raidType q = raid \<and> partType q = ptype \<and>
    physicalSize q = \<lparr>startLba = start, ppsBlksPerChunk = 64, ppsChunksPerStripe = length (devs q),
      ppsStripesPerSegment = 1024, ppsTotalSegments = segCnt\<rparr> \<and>
    (devs q = ds \<or> raid = RAID10 \<and> devs q = butlast ds) \<and> (raid = RAID10 \<longrightarrow> even (length (devs q))) \<and>
    Method_CheckNumofDevsToConfigure (methodOf raid (physicalSize q)) (length (devs q)) \<and>
    lastLba q = u64 (start + 524288 * segCnt) \<and>
    plsBlksPerStripe (logicalSize q) = u32 (ftBlksPerStripe (ftSize (methodOf raid (physicalSize q))) + 2 ^ 32
      - backupBlkCnt (ftSize (methodOf raid (physicalSize q)))) \<and>
    minWriteBlkCnt (logicalSize q) = ftMinWriteBlkCnt (ftSize (methodOf raid (physicalSize q))) \<and>
    totalStripes (logicalSize q) = u32 (1024 * segCnt)"
proof -
  define p1 where "p1 = (if raid = RAID10 \<and> length ds mod 2 \<noteq> 0
    then (StripePartition_new ptype ds raid)\<lparr>devs := butlast ds\<rparr> else StripePartition_new ptype ds raid)"
  define p2 where "p2 = Partition_UpdateLastLba (StripePartition_SetPhysicalAddress start segCnt p1)"
  obtain ret p3 where m: "StripePartition_SetMethod create numaCount totalNvmBlks p2 = (ret, p3)" by fastforce
  have c: "StripePartition_Create create numaCount start segCnt totalNvmBlks (StripePartition_new ptype ds raid) =
      (case ftMethod p3 of
         Some meth \<Rightarrow> if ret \<noteq> 0 then (ret, p3) else (0, StripePartition_SetLogicalAddress meth p3)
       | None \<Rightarrow> (ret, p3))"
    unfolding StripePartition_Create_def Let_def new_fields m [unfolded p2_def p1_def] prod.case by (rule refl)
  have ret: "ret = 0" using assms unfolding c by (simp split: option.splits if_splits)
  have f: "ftMethod p2 = None" "raidType p2 = raid" "partType p2 = ptype" "devs p2 = devs p1" "lastLba p2 = u64 (start + 524288 * segCnt)"
    "physicalSize p2 = \<lparr>startLba = start, ppsBlksPerChunk = 64, ppsChunksPerStripe = length (devs p1),
      ppsStripesPerSegment = 1024, ppsTotalSegments = segCnt\<rparr>"
    by (simp_all add: p2_def p1_def StripePartition_new_def Partition_UpdateLastLba_def StripePartition_SetPhysicalAddress_def)
  note m3 = SetMethod_ok [OF m [unfolded ret] f(1)]
  have q: "q = StripePartition_SetLogicalAddress (methodOf raid (physicalSize p2)) p3"
    using assms m3 f(2) unfolding c ret by simp
  have d: "devs p1 = ds \<or> raid = RAID10 \<and> devs p1 = butlast ds" "raid = RAID10 \<longrightarrow> even (length (devs p1))"
    by (auto simp: p1_def StripePartition_new_def)
  show ?thesis
    using m3 d f by (simp add: q StripePartition_SetLogicalAddress_def Let_def)
qed

abbreviation methodIn :: "StripePartition \<Rightarrow> Method" where
  "methodIn p \<equiv> methodOf (raidType p) (physicalSize p)"

lemma dataBlks_exact:
  assumes "physOk ps" "Method_CheckNumofDevsToConfigure (methodOf r ps) (ppsChunksPerStripe ps)"
  shows "u32 (ftBlksPerStripe (ftSize (methodOf r ps)) + 2 ^ 32 - backupBlkCnt (ftSize (methodOf r ps))) = dataBlks (methodOf r ps)"
proof (rule u32_minus)
  have half: "ppsChunksPerStripe ps div 2 * ppsBlksPerChunk ps \<le> ppsChunksPerStripe ps * ppsBlksPerChunk ps"
    by (intro mult_le_mono1) simp
  show "backupBlkCnt (ftSize (methodOf r ps)) \<le> ftBlksPerStripe (ftSize (methodOf r ps))"
    using assms(1) half physOkD(3) [OF assms(1)] by (cases r) (simp_all add: methodOf_def)
  show "ftBlksPerStripe (ftSize (methodOf r ps)) < 2 ^ 32"
    using ft_method.stripe_size [OF methodOf_ft assms] physOkD(4) [OF assms(1)] by simp
qed

lemma createdD:
  assumes "created p"
  shows "ftMethod p = Some (methodIn p)" "physOk (physicalSize p)" "ppsBlksPerChunk (physicalSize p) = 64"
    "ppsChunksPerStripe (physicalSize p) = length (devs p)" "distinct (devs p)" "length (devs p) < 2 ^ 26"
    "Method_CheckNumofDevsToConfigure (methodIn p) (length (devs p))"
    "totalStripes (logicalSize p) = 1024 * ppsTotalSegments (physicalSize p)" "totalStripes (logicalSize p) < 2 ^ 32"
    "lastLba p = startLba (physicalSize p) + totalStripes (logicalSize p) * 512" "lastLba p < 2 ^ 64"
    "plsBlksPerStripe (logicalSize p) = dataBlks (methodIn p)"
    "minWriteBlkCnt (logicalSize p) = ftMinWriteBlkCnt (ftSize (methodIn p))"
    "raidType p = RAID10 \<longrightarrow> even (length (devs p))"
proof -
  obtain create numaCount start segCnt totalNvmBlks ptype ds raid where
    c: "StripePartition_Create create numaCount start segCnt totalNvmBlks (StripePartition_new ptype ds raid) = (0, p)"
    and b: "distinct ds" "length ds < 2 ^ 26" "segCnt < 2 ^ 22" "start + 524288 * segCnt < 2 ^ 64"
    using assms unfolding created_def by blast
  note r = Create_ok [OF c]
  have len: "length (devs p) < 2 ^ 26" using r b(2) by auto
  have "0 < length (devs p)"
    using r by (cases raid) (auto simp: methodOf_def Method_CheckNumofDevsToConfigure_def RaidNone_CheckNumofDevsToConfigure_def
        Raid0_CheckNumofDevsToConfigure_def Raid5_CheckNumofDevsToConfigure_def Raid10_CheckNumofDevsToConfigure_def)
  then show ok: "physOk (physicalSize p)" using r len by (simp add: physOk_def)
  have tot: "totalStripes (logicalSize p) = 1024 * segCnt" using r b(3) by simp
  have raid: "raidType p = raid" using r by simp
  show "ftMethod p = Some (methodIn p)" "Method_CheckNumofDevsToConfigure (methodIn p) (length (devs p))"
    "minWriteBlkCnt (logicalSize p) = ftMinWriteBlkCnt (ftSize (methodIn p))"
    "raidType p = RAID10 \<longrightarrow> even (length (devs p))"
    unfolding raid using r by blast+
  show "ppsBlksPerChunk (physicalSize p) = 64" "ppsChunksPerStripe (physicalSize p) = length (devs p)" "length (devs p) < 2 ^ 26"
    using r len by simp_all
  show "distinct (devs p)" using r b(1) by (auto simp: distinct_butlast)
  show "totalStripes (logicalSize p) = 1024 * ppsTotalSegments (physicalSize p)" "totalStripes (logicalSize p) < 2 ^ 32"
    using tot r b(3) by simp_all
  show "lastLba p = startLba (physicalSize p) + totalStripes (logicalSize p) * 512" "lastLba p < 2 ^ 64"
    using tot r b(4) by simp_all
  show "plsBlksPerStripe (logicalSize p) = dataBlks (methodIn p)"
  proof -
    have ch: "ppsChunksPerStripe (physicalSize p) = length (devs p)" using r by simp
    have chk: "Method_CheckNumofDevsToConfigure (methodOf raid (physicalSize p)) (ppsChunksPerStripe (physicalSize p))"
      unfolding ch using r by blast
    have "plsBlksPerStripe (logicalSize p) = u32 (ftBlksPerStripe (ftSize (methodOf raid (physicalSize p))) + 2 ^ 32
        - backupBlkCnt (ftSize (methodOf raid (physicalSize p))))"
      using r by blast
    also have "\<dots> = dataBlks (methodOf raid (physicalSize p))" by (rule dataBlks_exact [OF ok chk])
    finally show ?thesis unfolding raid .
  qed
qed

section \<open>Addresses of a partition\<close>

lemma FindDevice_nth:
  assumes "distinct ds" "i < length ds"
  shows "FindDevice_loop (ds ! i) ds k = k + int i"
  using assms
proof (induction ds arbitrary: i k)
  case (Cons d ds)
  then show ?case by (cases i) (auto simp: nth_mem)
qed simp

lemma F2P_exact:
  assumes "created p" "ftStripe fba < totalStripes (logicalSize p)" "ftStripe fba < 2 ^ 26" "ftOffset fba < length (devs p) * 64"
  shows "StripePartition_F2PTranslate p fba = Inr \<lparr>lba = startLba (physicalSize p) + (ftStripe fba * 64 + ftOffset fba mod 64) * 8,
    arrayDev = devs p ! (ftOffset fba div 64)\<rparr>"
proof -
  have c: "ftOffset fba div 64 < length (devs p)" using assms(4) by (rule chunk_of_less)
  have "ftStripe fba * 64 + ftOffset fba mod 64 < totalStripes (logicalSize p) * 64"
    using assms(2) by (intro mult_add_less) simp_all
  then have "startLba (physicalSize p) + (ftStripe fba * 64 + ftOffset fba mod 64) * 8 < lastLba p"
    using createdD(10) [OF assms(1)] by simp
  then have "startLba (physicalSize p) + (ftStripe fba * 64 + ftOffset fba mod 64) * 8 < 2 ^ 64"
    using createdD(11) [OF assms(1)] by linarith
  moreover have "u32 (ftStripe fba * 64) = ftStripe fba * 64" using assms(3) by simp
  moreover have "u32 (ftOffset fba div 64) = ftOffset fba div 64" using c createdD(6) [OF assms(1)] by simp
  ultimately show ?thesis
    using c by (simp add: StripePartition_F2PTranslate_def createdD(3) [OF assms(1)] Let_def)
qed

lemma P2F_F2P:
  assumes "created p" "ftStripe fba < totalStripes (logicalSize p)" "ftStripe fba < 2 ^ 26" "ftOffset fba < length (devs p) * 64"
    "StripePartition_F2PTranslate p fba = Inr pba"
  shows "StripePartition_P2FTranslate p pba = Inr fba"
proof -
  let ?x = "ftStripe fba * 64 + ftOffset fba mod 64"
  note d = createdD [OF assms(1)]
  have c: "ftOffset fba div 64 < length (devs p)" using assms(4) by (rule chunk_of_less)
  have pba: "pba = \<lparr>lba = startLba (physicalSize p) + ?x * 8, arrayDev = devs p ! (ftOffset fba div 64)\<rparr>"
    using assms(5) unfolding F2P_exact [OF assms(1-4)] by simp
  have find: "FindDevice_loop (arrayDev pba) (devs p) 0 = int (ftOffset fba div 64)"
    using FindDevice_nth [OF d(5) c, of 0] by (simp add: pba)
  have "?x < 2 ^ 26 * 64" using assms(3) by (intro mult_add_less) simp_all
  then have "u64 (lba pba + 2 ^ 64 - startLba (physicalSize p)) = ?x * 8"
    using u64_minus [of "startLba (physicalSize p)" "lba pba"] by (simp add: pba)
  moreover have "?x div 64 = ftStripe fba" "?x mod 64 = ftOffset fba mod 64" by simp_all
  moreover have "ftOffset fba div 64 * 64 < 2 ^ 32" using c d(6) by simp
  ultimately show ?thesis
    unfolding StripePartition_P2FTranslate_def Let_def find d(3)
    using assms(3) by (cases fba) simp
qed

section \<open>Buffers of a write\<close>

text \<open>The memory of the \<open>k\<close>-th block of a list of buffers.\<close>

fun blockOf :: "BufferEntry list \<Rightarrow> nat \<Rightarrow> nat option" where
  "blockOf [] k = None"
| "blockOf (b # bs) k = (if k < blkCnt b then Some (buffer b + k * BLOCK_SIZE_BYTE) else blockOf bs (k - blkCnt b))"

abbreviation blksBefore :: "BufferEntry list \<Rightarrow> nat \<Rightarrow> nat" where
  "blksBefore bs k \<equiv> sum_list (map blkCnt (take k bs))"

lemma blockOf_nth:
  assumes "k < length bs" "g < blkCnt (bs ! k)"
  shows "blockOf bs (blksBefore bs k + g) = Some (buffer (bs ! k) + g * BLOCK_SIZE_BYTE)"
  using assms
proof (induction bs arbitrary: k)
  case (Cons b bs)
  then show ?case by (cases k) auto
qed simp

text \<open>A run of blocks that lies within the \<open>k\<close>-th buffer.\<close>

definition inBuffer :: "BufferEntry list \<Rightarrow> nat \<Rightarrow> nat \<Rightarrow> nat \<Rightarrow> bool" where
  "inBuffer bs k start cnt \<longleftrightarrow> k < length bs \<and> blksBefore bs k \<le> start \<and> start + cnt \<le> blksBefore bs k + blkCnt (bs ! k)"

lemma Splice_in_buffer:
  assumes "k < length bs" "off + blksBefore bs k \<le> start" "start + cnt \<le> off + blksBefore bs k + blkCnt (bs ! k)"
    "1 \<le> cnt" "off + sum_list (map blkCnt bs) < 2 ^ 32"
  shows "StripePartition_SpliceBuffer bs start cnt off =
    [(bs ! k)\<lparr>buffer := buffer (bs ! k) + (start - off - blksBefore bs k) * BLOCK_SIZE_BYTE, blkCnt := cnt\<rparr>]"
  using assms
proof (induction bs arbitrary: k off)
  case (Cons b bs)
  have u: "u32 (off + blkCnt b) = off + blkCnt b" using Cons.prems(5) by simp
  show ?case
  proof (cases k)
    case 0
    then have "cnt \<le> blkCnt b - (start - off)" "start < off + blkCnt b" "off \<le> start" using Cons.prems by simp_all
    then show ?thesis using 0 u by (simp add: Let_def)
  next
    case (Suc k')
    have "StripePartition_SpliceBuffer (b # bs) start cnt off = StripePartition_SpliceBuffer bs start cnt (off + blkCnt b)"
      using Cons.prems(2) Suc u by simp
    also have "\<dots> = [(bs ! k')\<lparr>buffer := buffer (bs ! k') + (start - (off + blkCnt b) - blksBefore bs k') * BLOCK_SIZE_BYTE, blkCnt := cnt\<rparr>]"
      using Cons.prems Suc by (intro Cons.IH) auto
    finally show ?thesis using Suc by simp
  qed
qed simp

lemma Splice_blocks:
  assumes "inBuffer bs k start cnt" "1 \<le> cnt" "sum_list (map blkCnt bs) < 2 ^ 32" "j < cnt"
  shows "blockOf (StripePartition_SpliceBuffer bs start cnt 0) j = blockOf bs (start + j)"
proof -
  have k: "k < length bs" "blksBefore bs k \<le> start" "start + cnt \<le> blksBefore bs k + blkCnt (bs ! k)"
    using assms(1) by (simp_all add: inBuffer_def)
  have "StripePartition_SpliceBuffer bs start cnt 0 =
      [(bs ! k)\<lparr>buffer := buffer (bs ! k) + (start - blksBefore bs k) * BLOCK_SIZE_BYTE, blkCnt := cnt\<rparr>]"
    using Splice_in_buffer [of k bs 0 start cnt] k assms(2,3) by simp
  moreover have "blockOf bs (blksBefore bs k + (start - blksBefore bs k + j)) =
      Some (buffer (bs ! k) + (start - blksBefore bs k + j) * BLOCK_SIZE_BYTE)"
    using k assms(4) by (intro blockOf_nth) auto
  ultimately show ?thesis using k(2) assms(4) by (simp add: algebra_simps)
qed

text \<open>
  A run that goes past the end of a buffer is cut short: the rest of it is lost, since \<open>start\<close> stays where it was.
\<close>

lemma Splice_drops_rest:
  assumes "blkCnt b < cnt" "0 < blkCnt b" "blkCnt b + blkCnt c < 2 ^ 32"
  shows "StripePartition_SpliceBuffer [b, c] 0 cnt 0 = [b]"
  using assms by (simp add: Let_def)

section \<open>Writes of a chunk\<close>

text \<open>The write of chunk \<open>i\<close> of the offsets \<open>f\<close> to \<open>l\<close> of a stripe.\<close>

definition chunkWrite :: "StripePartition \<Rightarrow> BufferEntry list \<Rightarrow> nat \<Rightarrow> nat \<Rightarrow> nat \<Rightarrow> nat \<Rightarrow> PhysicalWriteEntry" where
  "chunkWrite p bufs stripeLba f l i =
     (let s = max f (64 * i); e = min l (64 * i + 63)
      in \<lparr>pweAddr = \<lparr>lba = stripeLba + (s - 64 * i) * 8, arrayDev = devs p ! i\<rparr>, pweBlkCnt = e - s + 1,
          pweBuffers = StripePartition_SpliceBuffer bufs (s - f) (e - s + 1) 0\<rparr>)"

lemma chunk_bounds:
  assumes "f div 64 \<le> c" "c \<le> l div (64 :: nat)"
  shows "f < 64 * c + 64" "64 * c \<le> l" "c < l div 64 \<Longrightarrow> 64 * c + 64 \<le> l" "c = l div 64 \<Longrightarrow> l = 64 * c + l mod 64"
  using assms by (simp_all add: less_eq_div_iff_mult_less_eq div_less_iff_less_mult [symmetric] algebra_simps
      flip: Suc_le_eq)

text \<open>One round of the loop.\<close>

lemma Convert_round:
  assumes "ppsBlksPerChunk (physicalSize p) = 64" "f \<le> l" "l < 2 ^ 32 - 64" "stripeLba + 512 < 2 ^ 64"
    "l div 64 < length (devs p)" "f div 64 \<le> c" "c \<le> l div 64"
    "ConvertToPhysical_loop p bufs stripeLba (l div 64) (l mod 64) is
       (if c \<noteq> l div 64 then 0 else max f (64 * c) - 64 * c) (u32 (min l (64 * c + 63) + 1 - f)) = Inr es"
  shows "ConvertToPhysical_loop p bufs stripeLba (l div 64) (l mod 64) (c # is) (max f (64 * c) - 64 * c) (max f (64 * c) - f) =
    Inr (chunkWrite p bufs stripeLba f l c # es)"
proof -
  define s e where "s = max f (64 * c)" and "e = min l (64 * c + 63)"
  define cnt where "cnt = (if c \<noteq> l div 64 then u32 (64 + 2 ^ 32 - (s - 64 * c)) else u32 (l mod 64 + 2 ^ 32 - (s - 64 * c) + 1))"
  note b = chunk_bounds [OF assms(6,7)]
  have s: "64 * c \<le> s" "s < 64 * c + 64" "f \<le> s" "s \<le> l" using b(1,2) assms(2) by (auto simp: s_def)
  have e: "s \<le> e" "e \<le> l" using s by (auto simp: e_def)
  have cnt: "cnt = e - s + 1"
  proof (cases "c = l div 64")
    case True
    obtain r where r: "l mod 64 = r" "l = 64 * c + r" "r < 64" using b(4) [OF True] by fastforce
    have le: "s - 64 * c \<le> r + 1" "r + 1 < 2 ^ 32" using s(4) r by simp_all
    have eq: "r + 2 ^ 32 - (s - 64 * c) + 1 = (r + 1) + 2 ^ 32 - (s - 64 * c)" using s(2) by simp
    have "u32 (r + 2 ^ 32 - (s - 64 * c) + 1) = r + 1 - (s - 64 * c)" unfolding eq by (rule u32_minus [OF le])
    moreover have "e = l" using r(2,3) by (simp add: e_def)
    moreover have "cnt = u32 (r + 2 ^ 32 - (s - 64 * c) + 1)" unfolding cnt_def r(1) using True by (simp only: simp_thms if_False)
    ultimately show ?thesis using r(2) s by simp
  next
    case False
    then have "e = 64 * c + 63" using b(3) assms(7) by (simp add: e_def)
    then show ?thesis using False s(1,2) u32_minus [of "s - 64 * c" 64] by (simp add: cnt_def)
  qed
  have lt: "c < length (devs p)" using assms(5,7) by simp
  have lba: "u64 (stripeLba + u32 ((s - 64 * c) * 8)) = stripeLba + (s - 64 * c) * 8"
  proof -
    have "(s - 64 * c) * 8 < 512" using s(2) by simp
    then show ?thesis using assms(4) by simp
  qed
  have nxt: "s - f + cnt = e + 1 - f" unfolding cnt using s e by simp
  have "ConvertToPhysical_loop p bufs stripeLba (l div 64) (l mod 64) (c # is) (s - 64 * c) (s - f) =
      andThen (ConvertToPhysical_loop p bufs stripeLba (l div 64) (l mod 64) is (if c \<noteq> l div 64 then 0 else s - 64 * c) (u32 (s - f + cnt)))
        (\<lambda>es. Inr (\<lparr>pweAddr = \<lparr>lba = stripeLba + (s - 64 * c) * 8, arrayDev = devs p ! c\<rparr>, pweBlkCnt = cnt,
           pweBuffers = StripePartition_SpliceBuffer bufs (s - f) cnt 0\<rparr> # es))"
    by (simp only: ConvertToPhysical_loop.simps Let_def if_P [OF lt] assms(1) cnt_def [symmetric] lba)
  also have "\<dots> = Inr (chunkWrite p bufs stripeLba f l c # es)"
    unfolding nxt assms(8) [folded s_def e_def] by (simp add: chunkWrite_def Let_def cnt flip: s_def e_def)
  finally show ?thesis unfolding s_def .
qed

lemma Convert_loop_eq:
  assumes "ppsBlksPerChunk (physicalSize p) = 64" "f \<le> l" "l < 2 ^ 32 - 64" "stripeLba + 512 < 2 ^ 64"
    "l div 64 < length (devs p)" "f div 64 \<le> c" "c \<le> l div 64"
  shows "ConvertToPhysical_loop p bufs stripeLba (l div 64) (l mod 64) [c..<Suc (l div 64)] (max f (64 * c) - 64 * c) (max f (64 * c) - f) =
    Inr (map (chunkWrite p bufs stripeLba f l) [c..<Suc (l div 64)])"
  using assms(6,7)
proof (induction "l div 64 - c" arbitrary: c)
  case 0
  then have c: "c = l div 64" by simp
  then have "ConvertToPhysical_loop p bufs stripeLba (l div 64) (l mod 64) (c # []) (max f (64 * c) - 64 * c) (max f (64 * c) - f) =
      Inr (chunkWrite p bufs stripeLba f l c # [])"
    using 0 by (intro Convert_round [OF assms(1-5)]) simp_all
  then show ?case using c by simp
next
  case (Suc n)
  then have c: "c < l div 64" by simp
  have up: "[c..<Suc (l div 64)] = c # [Suc c..<Suc (l div 64)]" using c by (simp add: upt_conv_Cons del: upt_Suc)
  note b = chunk_bounds [OF Suc.prems]
  have "max f (64 * Suc c) - 64 * Suc c = 0" using b(1) by simp
  moreover have "u32 (min l (64 * c + 63) + 1 - f) = max f (64 * Suc c) - f" using b(1,3) c assms(3) by simp
  ultimately have "ConvertToPhysical_loop p bufs stripeLba (l div 64) (l mod 64) [Suc c..<Suc (l div 64)]
      (if c \<noteq> l div 64 then 0 else max f (64 * c) - 64 * c) (u32 (min l (64 * c + 63) + 1 - f)) =
      Inr (map (chunkWrite p bufs stripeLba f l) [Suc c..<Suc (l div 64)])"
    using Suc.hyps(1) [of "Suc c"] Suc.hyps(2) Suc.prems c by (simp del: upt_Suc)
  from Convert_round [OF assms(1-5) Suc.prems this] show ?case unfolding up by simp
qed

section \<open>Where a write puts its blocks\<close>

definition writesBlock :: "PhysicalWriteEntry list \<Rightarrow> PhysicalBlkAddr \<Rightarrow> nat option \<Rightarrow> bool" where
  "writesBlock ws a src \<longleftrightarrow> (\<exists>w\<in>set ws. \<exists>j<pweBlkCnt w. arrayDev a = arrayDev (pweAddr w) \<and>
     lba a = lba (pweAddr w) + 8 * j \<and> blockOf (pweBuffers w) j = src)"

text \<open>Each part of a write that goes to one chunk lies within one of the buffers.\<close>

definition chunkedBuffers :: "BufferEntry list \<Rightarrow> nat \<Rightarrow> nat \<Rightarrow> bool" where
  "chunkedBuffers bufs f l \<longleftrightarrow> sum_list (map blkCnt bufs) < 2 ^ 32 \<and>
     (\<forall>i. f div 64 \<le> i \<and> i \<le> l div 64 \<longrightarrow>
       (\<exists>k. inBuffer bufs k (max f (64 * i) - f) (min l (64 * i + 63) - max f (64 * i) + 1)))"

lemma chunkWrite_writes:
  assumes "chunkedBuffers bufs f l" "f \<le> x" "x \<le> l"
  shows "writesBlock [chunkWrite p bufs stripeLba f l (x div 64)]
    \<lparr>lba = stripeLba + x mod 64 * 8, arrayDev = devs p ! (x div 64)\<rparr> (blockOf bufs (x - f))"
proof -
  let ?i = "x div 64" and ?w = "chunkWrite p bufs stripeLba f l (x div 64)"
  define s e where "s = max f (64 * ?i)" and "e = min l (64 * ?i + 63)"
  define r where "r = x mod 64"
  have x: "x = 64 * ?i + r" "r < 64" by (simp_all add: r_def)
  have i: "f div 64 \<le> ?i" "?i \<le> l div 64" using assms(2,3) by (simp_all add: div_le_mono)
  then obtain k where k: "inBuffer bufs k (s - f) (e - s + 1)"
    using assms(1) unfolding chunkedBuffers_def s_def e_def by blast
  have b: "s \<le> x" "x \<le> e" "f \<le> s" "64 * ?i \<le> s" using assms(2,3) x by (simp_all add: s_def e_def)
  have bufs: "pweBuffers ?w = StripePartition_SpliceBuffer bufs (s - f) (e - s + 1) 0"
    by (simp add: chunkWrite_def Let_def s_def e_def)
  have "blockOf (pweBuffers ?w) (x - s) = blockOf bufs (s - f + (x - s))"
    unfolding bufs using assms(1) b by (intro Splice_blocks [OF k]) (simp_all add: chunkedBuffers_def)
  also have "s - f + (x - s) = x - f" using b by simp
  finally have blk: "blockOf (pweBuffers ?w) (x - s) = blockOf bufs (x - f)" .
  have w: "pweBlkCnt ?w = e - s + 1" "pweAddr ?w = \<lparr>lba = stripeLba + (s - 64 * ?i) * 8, arrayDev = devs p ! ?i\<rparr>"
    by (simp_all add: chunkWrite_def Let_def s_def e_def)
  have "x - s < e - s + 1" "r * 8 = (s - 64 * ?i) * 8 + 8 * (x - s)" using b x by simp_all
  then show ?thesis unfolding writesBlock_def r_def [symmetric] using blk
    by (intro bexI [of _ ?w] exI [of _ "x - s"]) (simp_all add: w)
qed

lemma writesBlock_mono: "writesBlock ws a src \<Longrightarrow> set ws \<subseteq> set ws' \<Longrightarrow> writesBlock ws' a src"
  unfolding writesBlock_def by blast

lemma ConvertToPhysical_writes:
  assumes "created p" "ftStripe (fweAddr e) < totalStripes (logicalSize p)" "1 \<le> fweBlkCnt e"
    "ftOffset (fweAddr e) + fweBlkCnt e \<le> length (devs p) * 64"
    "chunkedBuffers (fweBuffers e) (ftOffset (fweAddr e)) (ftOffset (fweAddr e) + fweBlkCnt e - 1)"
  obtains ws where "StripePartition_ConvertToPhysical p e = Inr ws"
    "\<And>x. ftOffset (fweAddr e) \<le> x \<Longrightarrow> x < ftOffset (fweAddr e) + fweBlkCnt e \<Longrightarrow>
       writesBlock ws \<lparr>lba = startLba (physicalSize p) + (ftStripe (fweAddr e) * 64 + x mod 64) * 8,
         arrayDev = devs p ! (x div 64)\<rparr> (blockOf (fweBuffers e) (x - ftOffset (fweAddr e)))"
proof -
  let ?f = "ftOffset (fweAddr e)" and ?lba = "startLba (physicalSize p) + ftStripe (fweAddr e) * 512"
  define l where "l = ?f + fweBlkCnt e - 1"
  note d = createdD [OF assms(1)]
  have fl: "?f \<le> l" "l < length (devs p) * 64" using assms(3,4) by (simp_all add: l_def)
  have l32: "l < 2 ^ 32 - 64" using fl(2) d(6) by simp
  have lc: "l div 64 < length (devs p)" using fl(2) by (rule chunk_of_less)
  have lba: "?lba + 512 \<le> lastLba p" using d(10) assms(2) by simp
  have u: "u32 ?f = ?f" "u32 (?f + fweBlkCnt e + 2 ^ 32 - 1) = l"
    using fl(1) l32 u32_minus [of 1 "?f + fweBlkCnt e"] assms(3) by (simp_all add: l_def)
  have "StripePartition_ConvertToPhysical p e = ConvertToPhysical_loop p (fweBuffers e) ?lba (l div 64) (l mod 64)
      [?f div 64..<Suc (l div 64)] (max ?f (64 * (?f div 64)) - 64 * (?f div 64)) (max ?f (64 * (?f div 64)) - ?f)"
    unfolding StripePartition_ConvertToPhysical_def Let_def d(3) u
    using lba d(11) by (simp add: minus_mult_div_eq_mod max_absorb1 algebra_simps del: upt_Suc)
  also have "\<dots> = Inr (map (chunkWrite p (fweBuffers e) ?lba ?f l) [?f div 64..<Suc (l div 64)])"
    using lba d(11) fl(1) by (intro Convert_loop_eq [OF d(3) fl(1) l32 _ lc]) (simp_all add: div_le_mono)
  finally have ws: "StripePartition_ConvertToPhysical p e = Inr (map (chunkWrite p (fweBuffers e) ?lba ?f l) [?f div 64..<Suc (l div 64)])" .
  show thesis
  proof (rule that [OF ws])
    fix x assume x: "?f \<le> x" "x < ?f + fweBlkCnt e"
    then have xl: "x \<le> l" by (simp add: l_def)
    have "x div 64 \<in> {?f div 64..<Suc (l div 64)}" using x(1) xl by (simp add: div_le_mono less_Suc_eq_le)
    then have sub: "set [chunkWrite p (fweBuffers e) ?lba ?f l (x div 64)] \<subseteq>
        set (map (chunkWrite p (fweBuffers e) ?lba ?f l) [?f div 64..<Suc (l div 64)])"
      by (simp del: upt_Suc)
    have "?lba + x mod 64 * 8 = startLba (physicalSize p) + (ftStripe (fweAddr e) * 64 + x mod 64) * 8" by simp
    with writesBlock_mono [OF chunkWrite_writes [OF assms(5) [folded l_def] x(1) xl] sub]
    show "writesBlock (map (chunkWrite p (fweBuffers e) ?lba ?f l) [?f div 64..<Suc (l div 64)])
        \<lparr>lba = startLba (physicalSize p) + (ftStripe (fweAddr e) * 64 + x mod 64) * 8, arrayDev = devs p ! (x div 64)\<rparr>
        (blockOf (fweBuffers e) (x - ?f))"
      by simp
  qed
qed

text \<open>The address of offset \<open>x\<close> of a stripe.\<close>

abbreviation physAt :: "StripePartition \<Rightarrow> nat \<Rightarrow> nat \<Rightarrow> PhysicalBlkAddr" where
  "physAt p stripe x \<equiv> \<lparr>lba = startLba (physicalSize p) + (stripe * 64 + x mod 64) * 8, arrayDev = devs p ! (x div 64)\<rparr>"

lemma translate_offset_less:
  assumes "created p" "lsaOffset l < plsBlksPerStripe (logicalSize p)"
  shows "ftOffset (Method_Translate (methodIn p) l) < length (devs p) * 64"
proof -
  note d = createdD [OF assms(1)]
  have chk: "Method_CheckNumofDevsToConfigure (methodIn p) (ppsChunksPerStripe (physicalSize p))" using d(4,7) by simp
  show ?thesis
    using ft_method.in_stripe [OF methodOf_ft d(2) chk] ft_method.stripe_size [OF methodOf_ft d(2) chk] assms(2) d(3,4,12) by simp
qed

lemma Translate_eq:
  assumes "created p" "totalStripes (logicalSize p) \<le> 2 ^ 26" "Partition_IsValidAddress l p"
  shows "StripePartition_Translate l p = Inr (Inr (physAt p (lsaStripe l) (ftOffset (Method_Translate (methodIn p) l))))"
proof -
  have st: "ftStripe (Method_Translate (methodIn p) l) = lsaStripe l" by (rule ft_method.same_stripe [OF methodOf_ft])
  have l: "lsaStripe l < totalStripes (logicalSize p)" "lsaOffset l < plsBlksPerStripe (logicalSize p)"
    using assms(3) by (simp_all add: Partition_IsValidAddress_def)
  have "StripePartition_F2PTranslate p (Method_Translate (methodIn p) l) =
      Inr (physAt p (lsaStripe l) (ftOffset (Method_Translate (methodIn p) l)))"
    using F2P_exact [OF assms(1) _ _ translate_offset_less [OF assms(1) l(2)]] l(1) assms(2) by (simp add: st)
  then show ?thesis using assms(3) createdD(1) [OF assms(1)] by (simp add: StripePartition_Translate_def)
qed

lemma blksBefore_chunks:
  assumes "\<forall>b\<in>set bs. blkCnt b = 64" "k \<le> length bs"
  shows "blksBefore bs k = 64 * k"
  using assms
proof (induction bs arbitrary: k)
  case (Cons b bs)
  then show ?case by (cases k) auto
qed simp

lemma blockOf_chunks:
  assumes "\<forall>b\<in>set bs. blkCnt b = 64" "x < 64 * length bs"
  shows "blockOf bs x = Some (buffer (bs ! (x div 64)) + x mod 64 * BLOCK_SIZE_BYTE)"
proof -
  have k: "x div 64 < length bs" using assms(2) chunk_of_less [of x "length bs" 64] by (simp add: mult.commute)
  then have "blkCnt (bs ! (x div 64)) = 64" using assms(1) by (simp add: nth_mem)
  then show ?thesis
    using blockOf_nth [OF k, of "x mod 64"] blksBefore_chunks [OF assms(1), of "x div 64"] k by simp
qed

text \<open>The buffers a client gives: one for the whole write, or one for each chunk of an aligned write.\<close>

definition wellBuffered :: "LogicalWriteEntry \<Rightarrow> bool" where
  "wellBuffered w \<longleftrightarrow> (\<exists>b. lweBuffers w = [b] \<and> blkCnt b = lweBlkCnt w) \<or>
     lsaOffset (lweAddr w) mod 64 = 0 \<and> (\<forall>b\<in>set (lweBuffers w). blkCnt b = 64) \<and> lweBlkCnt w = 64 * length (lweBuffers w)"

lemma chunked_single:
  assumes "blkCnt b = n" "1 \<le> n" "n < 2 ^ 32"
  shows "chunkedBuffers [b] f (f + n - 1)"
  unfolding chunkedBuffers_def
proof (intro conjI allI impI)
  fix i assume "f div 64 \<le> i \<and> i \<le> (f + n - 1) div 64"
  then have "f < 64 * i + 64" "64 * i \<le> f + n - 1" using chunk_bounds [of f i "f + n - 1"] by simp_all
  then show "\<exists>k. inBuffer [b] k (max f (64 * i) - f) (min (f + n - 1) (64 * i + 63) - max f (64 * i) + 1)"
    using assms by (intro exI [of _ 0]) (auto simp: inBuffer_def max_def min_def)
qed (use assms in simp)

lemma chunked_aligned:
  assumes "\<forall>b\<in>set bs. blkCnt b = 64" "f mod 64 = 0" "1 \<le> length bs" "64 * length bs < 2 ^ 32"
  shows "chunkedBuffers bs f (f + 64 * length bs - 1)"
  unfolding chunkedBuffers_def
proof (intro conjI allI impI)
  obtain c where f: "f = 64 * c" using assms(2) by (auto simp: mod_eq_0_iff_dvd elim!: dvdE)
  fix i assume i: "f div 64 \<le> i \<and> i \<le> (f + 64 * length bs - 1) div 64"
  have "f + 64 * length bs - 1 < (c + length bs) * 64" using assms(3) f by simp
  then have le: "c \<le> i" "i < c + length bs" using i f chunk_of_less by (auto simp: le_less_trans)
  then obtain k where ik: "i = c + k" "k < length bs" using le_Suc_ex by (metis add_less_cancel_left)
  have k: "blkCnt (bs ! k) = 64" using ik(2) assms(1) by (simp add: nth_mem)
  have "64 * i + 63 \<le> f + 64 * length bs - 1" using ik f by simp
  then have "inBuffer bs k (max f (64 * i) - f) (min (f + 64 * length bs - 1) (64 * i + 63) - max f (64 * i) + 1)"
    using k ik blksBefore_chunks [OF assms(1), of k] f by (simp add: inBuffer_def max_def min_def)
  then show "\<exists>k. inBuffer bs k (max f (64 * i) - f) (min (f + 64 * length bs - 1) (64 * i + 63) - max f (64 * i) + 1)" ..
next
  show "sum_list (map blkCnt bs) < 2 ^ 32" using blksBefore_chunks [OF assms(1), of "length bs"] assms(4) by simp
qed

lemma wellBuffered_chunked:
  assumes "wellBuffered w" "1 \<le> lweBlkCnt w" "lweBlkCnt w < 2 ^ 32" "f mod 64 = lsaOffset (lweAddr w) mod 64"
  shows "chunkedBuffers (lweBuffers w) f (f + lweBlkCnt w - 1)"
  using assms(1) unfolding wellBuffered_def
proof
  assume "\<exists>b. lweBuffers w = [b] \<and> blkCnt b = lweBlkCnt w"
  then show ?thesis using chunked_single assms(2,3) by auto
next
  assume "lsaOffset (lweAddr w) mod 64 = 0 \<and> (\<forall>b\<in>set (lweBuffers w). blkCnt b = 64) \<and> lweBlkCnt w = 64 * length (lweBuffers w)"
  then show ?thesis using chunked_aligned [of "lweBuffers w" f] assms(2-4) by (cases "lweBuffers w") auto
qed

section \<open>The write path and the read path agree\<close>

text \<open>A write that the method leaves as one entry at the same offset, or at the offset of the mirror.\<close>

lemma entry_writes:
  assumes "created p" "Partition_IsValidEntry w p" "1 \<le> lweBlkCnt w" "wellBuffered w"
    "x + lweBlkCnt w \<le> length (devs p) * 64" "x mod 64 = lsaOffset (lweAddr w) mod 64"
  obtains ws where "StripePartition_ConvertToPhysical p
      \<lparr>fweAddr = \<lparr>ftStripe = lsaStripe (lweAddr w), ftOffset = x\<rparr>, fweBlkCnt = lweBlkCnt w, fweBuffers = lweBuffers w\<rparr> = Inr ws"
    "\<And>k. k < lweBlkCnt w \<Longrightarrow> writesBlock ws (physAt p (lsaStripe (lweAddr w)) (x + k)) (blockOf (lweBuffers w) k)"
proof -
  let ?e = "\<lparr>fweAddr = \<lparr>ftStripe = lsaStripe (lweAddr w), ftOffset = x\<rparr>, fweBlkCnt = lweBlkCnt w, fweBuffers = lweBuffers w\<rparr>"
  have "lweBlkCnt w < 2 ^ 32" using assms(5) createdD(6) [OF assms(1)] by simp
  from wellBuffered_chunked [OF assms(4,3) this assms(6)]
  have ch: "chunkedBuffers (fweBuffers ?e) (ftOffset (fweAddr ?e)) (ftOffset (fweAddr ?e) + fweBlkCnt ?e - 1)" by simp
  have st: "ftStripe (fweAddr ?e) < totalStripes (logicalSize p)" using assms(2) by (simp add: Partition_IsValidEntry_def)
  obtain ws where ws: "StripePartition_ConvertToPhysical p ?e = Inr ws"
    "\<And>y. ftOffset (fweAddr ?e) \<le> y \<Longrightarrow> y < ftOffset (fweAddr ?e) + fweBlkCnt ?e \<Longrightarrow>
       writesBlock ws (physAt p (ftStripe (fweAddr ?e)) y) (blockOf (fweBuffers ?e) (y - ftOffset (fweAddr ?e)))"
    using ConvertToPhysical_writes [OF assms(1) st _ _ ch] assms(3,5) by auto
  show thesis
  proof (rule that [OF ws(1)])
    fix k assume "k < lweBlkCnt w"
    then show "writesBlock ws (physAt p (lsaStripe (lweAddr w)) (x + k)) (blockOf (lweBuffers w) k)"
      using ws(2) [of "x + k"] by simp
  qed
qed

lemma dataBlks_le:
  assumes "created p"
  shows "plsBlksPerStripe (logicalSize p) \<le> length (devs p) * 64"
    "raidType p = RAID10 \<Longrightarrow> plsBlksPerStripe (logicalSize p) = length (devs p) div 2 * 64 \<and>
       backupBlkCnt (ftSize (methodIn p)) = length (devs p) div 2 * 64"
    "raidType p = RAID5 \<Longrightarrow> plsBlksPerStripe (logicalSize p) = (length (devs p) - 1) * 64 \<and> 3 \<le> length (devs p) \<and>
       minWriteBlkCnt (logicalSize p) = (length (devs p) - 1) * 64"
proof -
  note d = createdD [OF assms]
  have chk: "Method_CheckNumofDevsToConfigure (methodIn p) (ppsChunksPerStripe (physicalSize p))" using d(4,7) by simp
  show "plsBlksPerStripe (logicalSize p) \<le> length (devs p) * 64"
    using ft_method.stripe_size [OF methodOf_ft d(2) chk] d(3,4,12) by simp
  show "plsBlksPerStripe (logicalSize p) = length (devs p) div 2 * 64 \<and>
      backupBlkCnt (ftSize (methodIn p)) = length (devs p) div 2 * 64" if r: "raidType p = RAID10"
  proof -
    obtain c where c: "length (devs p) = 2 * c" using d(14) r by (auto elim: evenE)
    show ?thesis using d(2,3,4,12) r by (simp add: methodOf_def c)
  qed
  show "plsBlksPerStripe (logicalSize p) = (length (devs p) - 1) * 64 \<and> 3 \<le> length (devs p) \<and>
      minWriteBlkCnt (logicalSize p) = (length (devs p) - 1) * 64" if r: "raidType p = RAID5"
    using d(2,3,4,7,12,13) r
    by (simp add: methodOf_def Method_CheckNumofDevsToConfigure_def Raid5_CheckNumofDevsToConfigure_def algebra_simps)
qed

lemma raid0_writes:
  assumes "created p" "raidType p = NONE \<or> raidType p = RAID0" "Partition_IsValidEntry w p" "1 \<le> lweBlkCnt w" "wellBuffered w"
  shows "\<exists>ws p' m'. StripePartition_Convert numa w (p, m) = Inr (Inr (ws, p', m')) \<and> (\<forall>k<lweBlkCnt w. writesBlock ws (physAt p (lsaStripe (lweAddr w)) (lsaOffset (lweAddr w) + k)) (blockOf (lweBuffers w) k))"
proof -
  have le: "lsaOffset (lweAddr w) + lweBlkCnt w \<le> length (devs p) * 64"
    using assms(3) dataBlks_le(1) [OF assms(1)] by (simp add: Partition_IsValidEntry_def)
  obtain ws' where ws': "StripePartition_ConvertToPhysical p \<lparr>fweAddr = \<lparr>ftStripe = lsaStripe (lweAddr w), ftOffset = lsaOffset (lweAddr w)\<rparr>,
        fweBlkCnt = lweBlkCnt w, fweBuffers = lweBuffers w\<rparr> = Inr ws'"
      "\<And>k. k < lweBlkCnt w \<Longrightarrow> writesBlock ws' (physAt p (lsaStripe (lweAddr w)) (lsaOffset (lweAddr w) + k)) (blockOf (lweBuffers w) k)"
    using entry_writes [OF assms(1,3,4,5) le refl] by blast
  have "\<exists>p' m'. StripePartition_Convert numa w (p, m) = Inr (Inr (ws', p', m'))"
    using assms(2,3) ws'(1) createdD(1) [OF assms(1)]
    by (auto simp: StripePartition_Convert_def Method_Convert_def methodOf_def RaidNone_new_def Raid0_Convert_def)
  with ws'(2) show ?thesis by blast
qed

lemma raid10_writes:
  assumes "created p" "raidType p = RAID10" "Partition_IsValidEntry w p" "1 \<le> lweBlkCnt w" "wellBuffered w"
  shows "\<exists>ws p' m'. StripePartition_Convert numa w (p, m) = Inr (Inr (ws, p', m')) \<and> (\<forall>k<lweBlkCnt w.
    writesBlock ws (physAt p (lsaStripe (lweAddr w)) (lsaOffset (lweAddr w) + k)) (blockOf (lweBuffers w) k) \<and>
    writesBlock ws (physAt p (lsaStripe (lweAddr w)) (lsaOffset (lweAddr w) + length (devs p) div 2 * 64 + k)) (blockOf (lweBuffers w) k))"
proof -
  let ?x = "lsaOffset (lweAddr w)" and ?h = "length (devs p) div 2 * 64"
  note b = dataBlks_le(2) [OF assms(1,2)]
  obtain c where c: "length (devs p) = 2 * c" using createdD(14) [OF assms(1)] assms(2) by (auto elim: evenE)
  have le: "?x + ?h + lweBlkCnt w \<le> length (devs p) * 64"
    using assms(3) b by (simp add: Partition_IsValidEntry_def c)
  then have le0: "?x + lweBlkCnt w \<le> length (devs p) * 64" by simp
  obtain ws1 where ws1: "StripePartition_ConvertToPhysical p \<lparr>fweAddr = \<lparr>ftStripe = lsaStripe (lweAddr w), ftOffset = ?x\<rparr>,
        fweBlkCnt = lweBlkCnt w, fweBuffers = lweBuffers w\<rparr> = Inr ws1"
      "\<And>k. k < lweBlkCnt w \<Longrightarrow> writesBlock ws1 (physAt p (lsaStripe (lweAddr w)) (?x + k)) (blockOf (lweBuffers w) k)"
    using entry_writes [OF assms(1,3,4,5) le0 refl] by blast
  obtain ws2 where ws2: "StripePartition_ConvertToPhysical p \<lparr>fweAddr = \<lparr>ftStripe = lsaStripe (lweAddr w), ftOffset = ?x + ?h\<rparr>,
        fweBlkCnt = lweBlkCnt w, fweBuffers = lweBuffers w\<rparr> = Inr ws2"
      "\<And>k. k < lweBlkCnt w \<Longrightarrow> writesBlock ws2 (physAt p (lsaStripe (lweAddr w)) (?x + ?h + k)) (blockOf (lweBuffers w) k)"
    using entry_writes [OF assms(1,3,4,5) le mod_mult_self1] by blast
  have meth: "ftMethod p = Some (methodIn p)" "methodType (methodIn p) = RAID10"
    using createdD(1) [OF assms(1)] assms(2) by (simp_all add: methodOf_def)
  have "ConvertAll p (Raid10_Convert (ftSize (methodIn p)) w) = Inr (ws1 @ ws2)"
    using ws1(1) ws2(1) b by (simp add: Raid10_Convert_def Raid10_Translate_def Let_def)
  then have "\<exists>p' m'. StripePartition_Convert numa w (p, m) = Inr (Inr (ws1 @ ws2, p', m'))"
    using assms(3) meth by (simp add: StripePartition_Convert_def Method_Convert_def)
  moreover have "writesBlock (ws1 @ ws2) (physAt p (lsaStripe (lweAddr w)) (?x + k)) (blockOf (lweBuffers w) k) \<and>
      writesBlock (ws1 @ ws2) (physAt p (lsaStripe (lweAddr w)) (?x + ?h + k)) (blockOf (lweBuffers w) k)" if k: "k < lweBlkCnt w" for k
    using writesBlock_mono [OF ws1(2) [OF k]] writesBlock_mono [OF ws2(2) [OF k]] by simp
  ultimately show ?thesis by blast
qed

text \<open>The insertion of the parity buffer moves the blocks of the later chunks by one chunk.\<close>

lemma blockOf_insert:
  assumes "\<forall>b\<in>set ds. blkCnt b = 64" "blkCnt q = 64" "j \<le> length ds" "k < 64 * length ds"
  shows "blockOf (take j ds @ q # drop j ds) (if j \<le> k div 64 then k + 64 else k) = blockOf ds k"
proof -
  let ?bs = "take j ds @ q # drop j ds" and ?x = "if j \<le> k div 64 then k + 64 else k"
  have all: "\<forall>b\<in>set ?bs. blkCnt b = 64" using assms(1,2) by (auto dest: in_set_takeD in_set_dropD)
  have len: "?x < 64 * length ?bs" using assms(3,4) by simp
  have c: "k div 64 < length ds" using assms(4) chunk_of_less [of k "length ds" 64] by (simp add: mult.commute)
  have "?bs ! (?x div 64) = ds ! (k div 64)" using assms(3) c by (auto simp: nth_append min_def div_add_self2)
  moreover have "?x mod 64 = k mod 64" by simp
  ultimately show ?thesis using blockOf_chunks [OF all len] blockOf_chunks [OF assms(1,4)] by simp
qed

lemma raid5_shape:
  assumes "created p" "raidType p = RAID5" "Partition_IsValidEntry w p"
  shows "lsaOffset (lweAddr w) = 0" "lweBlkCnt w = (length (devs p) - 1) * 64" "3 \<le> length (devs p)"
  using dataBlks_le(3) [OF assms(1,2)] assms(3) by (simp_all add: Partition_IsValidEntry_def)

lemma full_stripe_writes:
  assumes "created p" "stripe < totalStripes (logicalSize p)" "\<forall>b\<in>set bs. blkCnt b = 64" "length bs = length (devs p)"
    "1 \<le> length bs"
  obtains ws where "StripePartition_ConvertToPhysical p
      \<lparr>fweAddr = \<lparr>ftStripe = stripe, ftOffset = 0\<rparr>, fweBlkCnt = 64 * length (devs p), fweBuffers = bs\<rparr> = Inr ws"
    "\<And>x. x < 64 * length (devs p) \<Longrightarrow> writesBlock ws (physAt p stripe x) (blockOf bs x)"
proof -
  let ?e = "\<lparr>fweAddr = \<lparr>ftStripe = stripe, ftOffset = 0\<rparr>, fweBlkCnt = 64 * length (devs p), fweBuffers = bs\<rparr>"
  have "64 * length bs < 2 ^ 32" using assms(4) createdD(6) [OF assms(1)] by simp
  from chunked_aligned [OF assms(3) _ assms(5) this, of 0]
  have ch: "chunkedBuffers (fweBuffers ?e) (ftOffset (fweAddr ?e)) (ftOffset (fweAddr ?e) + fweBlkCnt ?e - 1)"
    by (simp add: assms(4))
  have st: "ftStripe (fweAddr ?e) < totalStripes (logicalSize p)" using assms(2) by simp
  have n: "1 \<le> fweBlkCnt ?e" "ftOffset (fweAddr ?e) + fweBlkCnt ?e \<le> length (devs p) * 64" using assms(4,5) by simp_all
  from ConvertToPhysical_writes [OF assms(1) st n ch]
  obtain ws where "StripePartition_ConvertToPhysical p ?e = Inr ws"
    "\<And>x. ftOffset (fweAddr ?e) \<le> x \<Longrightarrow> x < ftOffset (fweAddr ?e) + fweBlkCnt ?e \<Longrightarrow>
       writesBlock ws (physAt p (ftStripe (fweAddr ?e)) x) (blockOf (fweBuffers ?e) (x - ftOffset (fweAddr ?e)))"
    by blast
  then show thesis by (intro that [of ws]) simp_all
qed

lemma Raid5_Convert_returns:
  assumes "numa < length pools" "fst (BufferPool_TryGetBuffer (pools ! numa)) \<noteq> None"
    "lsaStripe (lweAddr w) mod ftChunksPerStripe s \<le> length (lweBuffers w)"
  shows "\<exists>es pools' m1. Raid5_Convert numa s w (pools, m) = Inr (es, pools', m1)"
proof -
  obtain a b where "BufferPool_TryGetBuffer (pools ! numa) = (Some a, b)" using assms(2) by (cases "BufferPool_TryGetBuffer (pools ! numa)") auto
  then show ?thesis using assms(1,3) by (simp add: Raid5_Convert_def Raid5_AllocBuffer_def Raid5_GetParityOffset_def Let_def)
qed

lemma raid5_writes:
  assumes "created p" "raidType p = RAID5" "Partition_IsValidEntry w p"
    "\<forall>b\<in>set (lweBuffers w). blkCnt b = 64" "lweBlkCnt w = 64 * length (lweBuffers w)"
    "numa < length (parityPools p)" "fst (BufferPool_TryGetBuffer (parityPools p ! numa)) \<noteq> None"
  shows "\<exists>ws p' m'. StripePartition_Convert numa w (p, m) = Inr (Inr (ws, p', m')) \<and> (\<forall>k<lweBlkCnt w. writesBlock ws (physAt p (lsaStripe (lweAddr w))
    (ftOffset (Method_Translate (methodIn p) \<lparr>lsaStripe = lsaStripe (lweAddr w), lsaOffset = k\<rparr>))) (blockOf (lweBuffers w) k))"
proof -
  let ?n = "length (devs p)" and ?ds = "lweBuffers w" and ?l = "\<lambda>k. \<lparr>lsaStripe = lsaStripe (lweAddr w), lsaOffset = k\<rparr>"
  let ?j = "lsaStripe (lweAddr w) mod length (devs p)"
  note d = createdD [OF assms(1)] and sh = raid5_shape [OF assms(1,2,3)]
  have meth: "methodIn p = Raid5_new (physicalSize p)" using assms(2) by (simp add: methodOf_def)
  have len: "length ?ds = ?n - 1" using assms(5) sh(2) by simp
  have "?j < ?n" using sh(3) by (intro mod_less_divisor) linarith
  then have jl: "?j \<le> ?n - 1" by simp
  obtain es pools m1 where c: "Raid5_Convert numa (ftSize (Raid5_new (physicalSize p))) w (parityPools p, m) = Inr (es, pools, m1)"
    using Raid5_Convert_returns [OF assms(6,7), of w "ftSize (Raid5_new (physicalSize p))" m] jl d(2,3,4) len by auto
  obtain q where q: "es = [\<lparr>fweAddr = \<lparr>ftStripe = lsaStripe (lweAddr w), ftOffset = 0\<rparr>, fweBlkCnt = u32 (lweBlkCnt w + 64),
      fweBuffers = take ?j ?ds @ q # drop ?j ?ds\<rparr>]" and qb: "blkCnt q = 64" and j: "?j \<le> length ?ds"
    using Raid5_Convert_result [OF d(2) c] unfolding d(3,4) by metis
  let ?bs = "take ?j ?ds @ q # drop ?j ?ds"
  have cnt: "u32 (lweBlkCnt w + 64) = 64 * ?n" using sh(2,3) d(6) by simp
  have bs: "\<forall>b\<in>set ?bs. blkCnt b = 64" using assms(4) qb by (auto dest: in_set_takeD in_set_dropD)
  have bl: "length ?bs = ?n" "1 \<le> length ?bs" using len sh(3) by simp_all
  have st: "lsaStripe (lweAddr w) < totalStripes (logicalSize p)" using assms(3) by (simp add: Partition_IsValidEntry_def)
  obtain ws' where ws': "StripePartition_ConvertToPhysical p \<lparr>fweAddr = \<lparr>ftStripe = lsaStripe (lweAddr w), ftOffset = 0\<rparr>,
       fweBlkCnt = 64 * ?n, fweBuffers = ?bs\<rparr> = Inr ws'"
    "\<And>x. x < 64 * ?n \<Longrightarrow> writesBlock ws' (physAt p (lsaStripe (lweAddr w)) x) (blockOf ?bs x)"
    using full_stripe_writes [OF assms(1) st bs bl] by blast
  have "\<exists>p' m'. StripePartition_Convert numa w (p, m) = Inr (Inr (ws', p', m'))"
    using assms(3) d(1) c ws'(1) unfolding meth by (simp add: StripePartition_Convert_def Method_Convert_def q cnt)
  moreover have "writesBlock ws' (physAt p (lsaStripe (lweAddr w)) (ftOffset (Method_Translate (methodIn p) (?l k)))) (blockOf ?ds k)"
    if k: "k < lweBlkCnt w" for k
  proof -
    let ?x = "if ?j \<le> k div 64 then k + 64 else k"
    have kl: "lsaOffset (?l k) < dataBlks (Raid5_new (physicalSize p))"
      using k sh(2) d(2,3,4) by (simp add: diff_mult_distrib)
    have tr: "ftOffset (Method_Translate (methodIn p) (?l k)) = ?x"
      unfolding meth Raid5_Translate_eq [OF d(2) kl] by (simp add: d(3,4))
    have "k + 64 < 64 * ?n" using k sh(2) by (simp add: diff_mult_distrib)
    then have "?x < 64 * ?n" by simp
    from ws'(2) [OF this] show ?thesis
      using blockOf_insert [OF assms(4) qb j] assms(5) k by (simp only: tr)
  qed
  ultimately show ?thesis by blast
qed

section \<open>Properties\<close>

lemma Translate_Method:
  "methodType meth \<noteq> RAID5 \<Longrightarrow> ftOffset (Method_Translate meth l) = lsaOffset l"
  by (cases "methodType meth") (simp_all add: Method_Translate_def Raid0_Translate_def Raid10_Translate_def)

lemma methodType_methodOf [simp]: "methodType (methodOf r ps) = r"
  by (cases r) (simp_all add: methodOf_def)

lemma mirror_F2P:
  assumes "created p" "totalStripes (logicalSize p) \<le> 2 ^ 26" "raidType p = RAID10" "Partition_IsValidEntry w p" "k < lweBlkCnt w"
  shows "StripePartition_F2PTranslate p \<lparr>ftStripe = lsaStripe (lweAddr w),
      ftOffset = lsaOffset (lweAddr w) + length (devs p) div 2 * 64 + k\<rparr> =
    Inr (physAt p (lsaStripe (lweAddr w)) (lsaOffset (lweAddr w) + length (devs p) div 2 * 64 + k))"
proof -
  have "lsaOffset (lweAddr w) + length (devs p) div 2 * 64 + k < length (devs p) * 64"
    using assms(4,5) dataBlks_le(2) [OF assms(1,3)] createdD(14) [OF assms(1)] assms(3)
    by (auto simp: Partition_IsValidEntry_def elim!: evenE)
  then show ?thesis
    using F2P_exact [OF assms(1), of "\<lparr>ftStripe = lsaStripe (lweAddr w), ftOffset = lsaOffset (lweAddr w) + length (devs p) div 2 * 64 + k\<rparr>"]
      assms(2,4) by (simp add: Partition_IsValidEntry_def)
qed

text \<open>
  C22. What is written is what is read back: on a partition with at most \<open>2 ^ 26\<close> stripes, \<open>StripePartition::Convert\<close> of a
  valid write succeeds and puts every block of its buffers at the device and the sector that \<open>StripePartition::Translate\<close> gives for
  the logical address of that block, for every RAID type; on RAID 10 also at the mirror address. The buffers
  are one for the whole write or one for each chunk of an aligned write; RAID 5 needs the latter, and a
  free buffer in the parity pool of the node.
\<close>

theorem writes_reach_reads:
  assumes "created p" "totalStripes (logicalSize p) \<le> 2 ^ 26" "Partition_IsValidEntry w p" "1 \<le> lweBlkCnt w" "wellBuffered w"
    "raidType p = RAID5 \<Longrightarrow> (\<forall>b\<in>set (lweBuffers w). blkCnt b = 64) \<and> lweBlkCnt w = 64 * length (lweBuffers w) \<and>
       numa < length (parityPools p) \<and> fst (BufferPool_TryGetBuffer (parityPools p ! numa)) \<noteq> None"
  shows "\<exists>ws p' m'. StripePartition_Convert numa w (p, m) = Inr (Inr (ws, p', m')) \<and> (\<forall>k<lweBlkCnt w.
    (\<exists>a. StripePartition_Translate \<lparr>lsaStripe = lsaStripe (lweAddr w), lsaOffset = lsaOffset (lweAddr w) + k\<rparr> p = Inr (Inr a) \<and>
       writesBlock ws a (blockOf (lweBuffers w) k)) \<and>
    (raidType p = RAID10 \<longrightarrow> (\<exists>b. StripePartition_F2PTranslate p \<lparr>ftStripe = lsaStripe (lweAddr w),
       ftOffset = lsaOffset (lweAddr w) + length (devs p) div 2 * 64 + k\<rparr> = Inr b \<and> writesBlock ws b (blockOf (lweBuffers w) k))))"
proof -
  let ?l = "\<lambda>k. \<lparr>lsaStripe = lsaStripe (lweAddr w), lsaOffset = lsaOffset (lweAddr w) + k\<rparr>"
  have v: "Partition_IsValidAddress (?l k) p" if "k < lweBlkCnt w" for k
    using assms(3) that by (simp add: Partition_IsValidEntry_def Partition_IsValidAddress_def)
  note tr = Translate_eq [OF assms(1,2) v]
  show ?thesis
  proof (cases "raidType p")
    case RAID10
    have "StripePartition_F2PTranslate p \<lparr>ftStripe = lsaStripe (lweAddr w),
        ftOffset = lsaOffset (lweAddr w) + length (devs p) div 2 * 64 + k\<rparr> =
        Inr (physAt p (lsaStripe (lweAddr w)) (lsaOffset (lweAddr w) + length (devs p) div 2 * 64 + k))" if k: "k < lweBlkCnt w" for k
      using mirror_F2P [OF assms(1,2) RAID10 assms(3) k] .
    then show ?thesis using raid10_writes [OF assms(1) RAID10 assms(3-5), of numa m] tr RAID10 by (fastforce simp: Translate_Method)
  next
    case RAID5
    then show ?thesis
      using raid5_writes [OF assms(1) RAID5 assms(3), of numa m] assms(6) raid5_shape(1) [OF assms(1) RAID5 assms(3)] tr
      by fastforce
  next
    case NONE
    then show ?thesis using raid0_writes [OF assms(1) _ assms(3-5), of numa m] tr by (fastforce simp: Translate_Method)
  next
    case RAID0
    then show ?thesis using raid0_writes [OF assms(1) _ assms(3-5), of numa m] tr by (fastforce simp: Translate_Method)
  qed
qed

lemma physAt_inj:
  assumes "distinct (devs p)" "x < length (devs p) * 64" "y < length (devs p) * 64" "physAt p s x = physAt p t y"
  shows "s = t \<and> x = y"
proof -
  have eq: "devs p ! (x div 64) = devs p ! (y div 64)" "s * 64 + x mod 64 = t * 64 + y mod 64" using assms(4) by simp_all
  have q: "x div 64 = y div 64"
    using eq(1) nth_eq_iff_index_eq [OF assms(1) chunk_of_less [OF assms(2)] chunk_of_less [OF assms(3)]] by simp
  have "(s * 64 + x mod 64) div 64 = s" "(t * 64 + y mod 64) div 64 = t" by simp_all
  then have st: "s = t" using eq(2) by metis
  then have "x mod 64 = y mod 64" using eq(2) by simp
  with q st show ?thesis by (metis div_mult_mod_eq)
qed

text \<open>
  C25. No two logical blocks share a place: on a partition with at most \<open>2 ^ 26\<close> stripes, \<open>StripePartition::Translate\<close>
  returns an address within the partition and on one of its devices for every valid logical address, and
  different logical addresses have different physical ones.
\<close>

theorem translate_injective:
  assumes "created p" "totalStripes (logicalSize p) \<le> 2 ^ 26" "Partition_IsValidAddress l p" "Partition_IsValidAddress l' p"
  shows "\<exists>a b. StripePartition_Translate l p = Inr (Inr a) \<and> StripePartition_Translate l' p = Inr (Inr b) \<and>
    arrayDev a \<in> set (devs p) \<and> startLba (physicalSize p) \<le> lba a \<and> lba a < lastLba p \<and> (a = b \<longrightarrow> l = l')"
proof -
  let ?t = "Method_Translate (methodIn p) l" and ?t' = "Method_Translate (methodIn p) l'"
  let ?a = "physAt p (lsaStripe l) (ftOffset ?t)" and ?b = "physAt p (lsaStripe l') (ftOffset ?t')"
  note d = createdD [OF assms(1)]
  have v: "lsaOffset l < plsBlksPerStripe (logicalSize p)" "lsaOffset l' < plsBlksPerStripe (logicalSize p)"
    "lsaStripe l < totalStripes (logicalSize p)"
    using assms(3,4) by (simp_all add: Partition_IsValidAddress_def)
  have t: "ftOffset ?t < length (devs p) * 64" "ftOffset ?t' < length (devs p) * 64"
    using translate_offset_less [OF assms(1)] v by blast+
  note c = chunk_of_less [OF t(1)] chunk_of_less [OF t(2)]
  have "lsaStripe l * 64 + ftOffset ?t mod 64 < totalStripes (logicalSize p) * 64" using v(3) by (intro mult_add_less) simp_all
  then have la: "lba ?a < lastLba p" using d(10) by simp
  have inj: "l = l'" if "?a = ?b"
  proof -
    have "?t = ?t'"
      using physAt_inj [OF d(5) t that] ft_method.same_stripe [OF methodOf_ft, of "raidType p" "physicalSize p"]
      by (intro FtBlkAddr.equality) simp_all
    then show ?thesis
      using ft_method.translate_inj [OF methodOf_ft d(2)] d(4,7,12) v(1,2) by simp
  qed
  have "arrayDev ?a \<in> set (devs p)" "startLba (physicalSize p) \<le> lba ?a" using c(1) by simp_all
  with la inj show ?thesis
    unfolding Translate_eq [OF assms(1,2,3)] Translate_eq [OF assms(1,2,4)] by blast
qed

text \<open>
  C29. Beyond \<open>2 ^ 26\<close> stripes (devices of more than 16 TB) reads and writes part ways: \<open>_F2PTranslate\<close>, which the read path
  and the rebuild use, multiplies 32 bit numbers, while \<open>_ConvertToPhysical\<close>, which the write path uses,
  multiplies 64 bit ones. A write to such a stripe goes to the right sector, but its address translates to
  the sector of another, lower stripe on the same device.
\<close>

theorem high_stripes_misread:
  assumes "created p" "2 ^ 26 \<le> stripe" "stripe < totalStripes (logicalSize p)" "length bs = length (devs p)" "1 \<le> length bs"
    "\<forall>b\<in>set bs. blkCnt b = 64" "x < 64 * length (devs p)"
  shows "\<exists>ws a. StripePartition_ConvertToPhysical p
      \<lparr>fweAddr = \<lparr>ftStripe = stripe, ftOffset = 0\<rparr>, fweBlkCnt = 64 * length (devs p), fweBuffers = bs\<rparr> = Inr ws \<and>
    writesBlock ws (physAt p stripe x) (blockOf bs x) \<and>
    StripePartition_F2PTranslate p \<lparr>ftStripe = stripe, ftOffset = x\<rparr> = Inr a \<and>
    a = physAt p (stripe mod 2 ^ 26) x \<and> lba a < lba (physAt p stripe x)"
proof -
  note d = createdD [OF assms(1)]
  obtain ws where ws: "StripePartition_ConvertToPhysical p
      \<lparr>fweAddr = \<lparr>ftStripe = stripe, ftOffset = 0\<rparr>, fweBlkCnt = 64 * length (devs p), fweBuffers = bs\<rparr> = Inr ws"
    "writesBlock ws (physAt p stripe x) (blockOf bs x)"
    using full_stripe_writes [OF assms(1,3,6,4,5)] assms(7) by blast
  have low: "stripe mod 2 ^ 26 < 2 ^ 26" "stripe mod 2 ^ 26 < totalStripes (logicalSize p)" "stripe mod 2 ^ 26 < stripe"
    using assms(2,3) by (auto intro: le_less_trans [OF mod_less_eq_dividend] order_less_le_trans [OF mod_less_divisor])
  have "u32 (stripe * 64) = u32 (stripe mod 2 ^ 26 * 64)"
    using mult_mod_right [of 64 stripe "2 ^ 26"] by (simp add: u32_def mult.commute)
  then have "StripePartition_F2PTranslate p \<lparr>ftStripe = stripe, ftOffset = x\<rparr> =
      StripePartition_F2PTranslate p \<lparr>ftStripe = stripe mod 2 ^ 26, ftOffset = x\<rparr>"
    by (simp add: StripePartition_F2PTranslate_def d(3) Let_def)
  also have "\<dots> = Inr (physAt p (stripe mod 2 ^ 26) x)"
    using F2P_exact [OF assms(1), of "\<lparr>ftStripe = stripe mod 2 ^ 26, ftOffset = x\<rparr>"] low(1,2) assms(7) by simp
  finally show ?thesis using ws low(3) by simp
qed

section \<open>Recovery\<close>

lemma F2PAll_exact:
  assumes "created p" "stripe < totalStripes (logicalSize p)" "stripe < 2 ^ 26"
    "\<forall>a\<in>set as. ftStripe a = stripe \<and> ftOffset a < length (devs p) * 64"
  shows "F2PAll p as = Inr (map (\<lambda>a. physAt p stripe (ftOffset a)) as)"
  using assms(4)
proof (induction as)
  case (Cons a as)
  then show ?case using F2P_exact [OF assms(1), of a] assms(2,3) by simp
qed simp

lemma methodOf_redundant:
  assumes "created p" "raidType p = RAID5 \<or> raidType p = RAID10"
  shows "\<exists>fits. ft_redundant (methodOf (raidType p)) fits \<and> fits (ppsChunksPerStripe (physicalSize p))"
  using assms(2)
proof
  assume r: "raidType p = RAID5"
  then have "Raid5_CheckNumofDevsToConfigure (ppsChunksPerStripe (physicalSize p))"
    using createdD(4,7) [OF assms(1)] by (simp add: Method_CheckNumofDevsToConfigure_def)
  then show ?thesis using r raid5r.ft_redundant_axioms raid5.ft_method_axioms
    by (auto simp: methodOf_def intro!: exI [of _ Raid5_CheckNumofDevsToConfigure] ft_redundant.intro)
next
  assume r: "raidType p = RAID10"
  then show ?thesis using createdD(4,14) [OF assms(1)] raid10r.ft_redundant_axioms raid10.ft_method_axioms
    by (auto simp: methodOf_def intro!: exI [of _ even] ft_redundant.intro)
qed

lemma aligned_lba:
  assumes "8 dvd start" "start + n * 8 < 2 ^ 55"
  shows "u64 ((start + n * 8) * 512) div 4096 * 8 = start + n * 8"
proof -
  obtain y where y: "start + n * 8 = 8 * y" using assms(1) by (metis dvd_add dvd_triv_right dvdE)
  then have "u64 (8 * y * 512) = 4096 * y" using assms(2) by simp
  then show ?thesis by (simp add: y)
qed

lemma GetRecoverMethod_eq:
  assumes "created p" "totalStripes (logicalSize p) \<le> 2 ^ 26" "8 dvd startLba (physicalSize p)" "lastLba p \<le> 2 ^ 55"
    "Partition_IsValidAddress l p" "t = Method_Translate (methodIn p) l"
    "\<forall>a\<in>set (Method_GetRebuildGroup (methodIn p) t). ftStripe a = lsaStripe l \<and> ftOffset a < length (devs p) * 64"
  shows "StripePartition_GetRecoverMethod (physAt p (lsaStripe l) (ftOffset t)) p =
    Inr (Inr (map (\<lambda>a. physAt p (lsaStripe l) (ftOffset a)) (Method_GetRebuildGroup (methodIn p) t), Method_recoverFunc (methodIn p)))"
proof -
  let ?pba = "physAt p (lsaStripe l) (ftOffset t)"
  note d = createdD [OF assms(1)]
  have v: "lsaStripe l < totalStripes (logicalSize p)" "lsaStripe l < 2 ^ 26" "lsaOffset l < plsBlksPerStripe (logicalSize p)"
    using assms(2,5) by (simp_all add: Partition_IsValidAddress_def)
  have t: "ftOffset t < length (devs p) * 64" using translate_offset_less [OF assms(1) v(3)] assms(6) by simp
  note c = chunk_of_less [OF t]
  have st: "ftStripe t = lsaStripe l" unfolding assms(6) by (rule ft_method.same_stripe [OF methodOf_ft])
  have "lsaStripe l * 64 + ftOffset t mod 64 < totalStripes (logicalSize p) * 64" using v(1) by (intro mult_add_less) simp_all
  then have last: "lba ?pba < lastLba p" using d(10) by simp
  then have al: "u64 (lba ?pba * 512) div 4096 * 8 = lba ?pba"
    using aligned_lba [OF assms(3), of "lsaStripe l * 64 + ftOffset t mod 64"] assms(4) by simp
  have "StripePartition_F2PTranslate p t = Inr ?pba" using F2P_exact [OF assms(1), of t] v(1,2) t st by simp
  then have p2f: "StripePartition_P2FTranslate p ?pba = Inr t"
    using P2F_F2P [OF assms(1), of t] v(1,2) t st by simp
  have valid: "Partition_IsValidLba (lba ?pba) p" using last by (simp add: Partition_IsValidLba_def)
  have find: "Partition_FindDevice (arrayDev ?pba) p \<ge> 0"
    using FindDevice_nth [OF d(5) c, of 0] by (simp add: Partition_FindDevice_def)
  have upd: "?pba\<lparr>lba := lba ?pba\<rparr> = ?pba" by simp
  show ?thesis
    unfolding StripePartition_GetRecoverMethod_def StripePartition_GetRebuildGroup_def Let_def al upd d(1)
    using valid find p2f F2PAll_exact [OF assms(1) v(1,2) assms(7)] by simp
qed

text \<open>
  C24. Recovery reads only healthy devices: while the RAID state of a RAID 5 or RAID 10 partition is not \<open>FAILURE\<close>,
  \<open>StripePartition::GetRecoverMethod\<close> of the address of a block on a device that is not normal returns a recover function
  and source addresses in the partition, all of which are on devices in the normal state.
\<close>

theorem recovery_reads_normal_devices:
  assumes "created p" "totalStripes (logicalSize p) \<le> 2 ^ 26" "8 dvd startLba (physicalSize p)" "lastLba p \<le> 2 ^ 55"
    "raidType p = RAID5 \<or> raidType p = RAID10" "StripePartition_GetRaidState devState p = Inr r" "r \<noteq> FAILURE"
    "Partition_IsValidAddress l p" "StripePartition_Translate l p = Inr (Inr a)" "devState (arrayDev a) \<noteq> ArrayDeviceState.NORMAL"
  shows "\<exists>srcs f. StripePartition_GetRecoverMethod a p = Inr (Inr (srcs, Some f)) \<and>
    (\<forall>s\<in>set srcs. arrayDev s \<in> set (devs p) \<and> devState (arrayDev s) = ArrayDeviceState.NORMAL \<and>
       startLba (physicalSize p) \<le> lba s \<and> lba s < lastLba p)"
proof -
  let ?ps = "physicalSize p" and ?t = "Method_Translate (methodIn p) l" and ?ds = "map devState (devs p)"
  let ?G = "Method_GetRebuildGroup (methodIn p) ?t"
  note d = createdD [OF assms(1)]
  have v: "lsaOffset l < plsBlksPerStripe (logicalSize p)" "lsaStripe l < totalStripes (logicalSize p)"
    using assms(8) by (simp_all add: Partition_IsValidAddress_def)
  have a: "a = physAt p (lsaStripe l) (ftOffset ?t)" using Translate_eq [OF assms(1,2,8)] assms(9) by simp
  have t: "ftOffset ?t < length (devs p) * 64" using translate_offset_less [OF assms(1) v(1)] .
  obtain fits where red: "ft_redundant (methodOf (raidType p)) fits" and fits: "fits (ppsChunksPerStripe ?ps)"
    using methodOf_redundant [OF assms(1,5)] by blast
  have st: "ftStripe ?t = lsaStripe l" by (rule ft_method.same_stripe [OF methodOf_ft])
  have G: "\<forall>x\<in>set ?G. ftStripe x = lsaStripe l \<and> ftOffset x < length (devs p) * 64"
    using ft_redundant.group_in_stripe [OF red d(2) fits, of ?t] t st d(3,4) by simp
  have state: "Method_GetRaidState (methodIn p) ?ds = Inr r" using assms(6) d(1) by (simp add: StripePartition_GetRaidState_def)
  have "devState (devs p ! (ftOffset ?t div 64)) \<noteq> ArrayDeviceState.NORMAL" using assms(10) a by simp
  then have norm: "?ds ! (ftOffset x div 64) = ArrayDeviceState.NORMAL" if "x \<in> set ?G" for x
    using ft_redundant.block_readable [OF red d(2) fits _ state assms(7), of l x] that d(3,4,7,12) v(1) chunk_of_less [OF t] by simp
  have "lba (physAt p (lsaStripe l) x) < lastLba p" for x
    using mult_add_less [OF v(2), of "x mod 64" 64] d(10) by simp
  moreover have "arrayDev (physAt p (lsaStripe l) (ftOffset x)) \<in> set (devs p) \<and>
      devState (arrayDev (physAt p (lsaStripe l) (ftOffset x))) = ArrayDeviceState.NORMAL" if "x \<in> set ?G" for x
    using norm [OF that] chunk_of_less [of "ftOffset x" "length (devs p)" 64] G that by simp
  moreover obtain f where "Method_recoverFunc (methodIn p) = Some f"
    using assms(5) by (auto simp: Method_recoverFunc_def)
  ultimately show ?thesis
    unfolding a using GetRecoverMethod_eq [OF assms(1-4,8) refl G] by simp
qed

section \<open>Layout on the devices\<close>

lemma segment_counts:
  assumes "SsdPartitionBuilder_GetMinCapacity devSize devState ds = Inr C" "2 \<le> C div 268435456" "C < 2 ^ 50"
  obtains metaSeg userSeg where "SsdPartitionBuilder_GetSegmentCount devSize devState META_SSD ds = Inr metaSeg"
    "SsdPartitionBuilder_GetSegmentCount devSize devState USER_DATA ds = Inr userSeg"
    "1 + metaSeg + userSeg = C div 268435456" "0 < metaSeg"
proof -
  define S where "S = C div 268435456"
  define M where "M = (S * 2 + 99) div 100"
  have S: "2 \<le> S" "S < 2 ^ 22" using assms(2,3) by (simp_all add: S_def less_mult_imp_div_less)
  have M: "0 < M" "M + 1 \<le> S" using S(1) by (simp_all add: M_def div_greater_zero_iff)
  have meta: "DIV_ROUND_UP (S * 2) 100 = M" using S(2) by (simp add: DIV_ROUND_UP_def M_def)
  have "S + 2 ^ 64 - 1 - M = S + 2 ^ 64 - (1 + M)" by simp
  then have user: "u64 (S + 2 ^ 64 - 1 - M) = S - (1 + M)"
    using u64_minus [of "1 + M" S] M(2) S(2) by simp
  show thesis
  proof (rule that [of M "S - (1 + M)"])
    show "SsdPartitionBuilder_GetSegmentCount devSize devState META_SSD ds = Inr M"
      using S(2) M(2) unfolding SsdPartitionBuilder_GetSegmentCount_def assms(1) by (simp add: Let_def flip: S_def) (simp add: meta)
    show "SsdPartitionBuilder_GetSegmentCount devSize devState USER_DATA ds = Inr (S - (1 + M))"
      using S(2) M(2) user unfolding SsdPartitionBuilder_GetSegmentCount_def assms(1) by (simp add: Let_def flip: S_def) (simp add: meta)
  qed (use M in \<open>simp_all add: S_def\<close>)
qed

text \<open>
  C28. The partitions of the SSDs fit: when \<open>PartitionFactory::_SplitSsdPartitions\<close> succeeds on devices whose smallest has \<open>C\<close> bytes,
  at least two segments and less than \<open>2 ^ 50\<close>, the metadata partition starts after the boot record, the user
  partition starts where it ends and ends at the last whole segment of the smallest device.
\<close>

theorem partitions_fit:
  assumes "PartitionFactory_SplitSsdPartitions create numaCount devSize devState nvm ds metaRaid dataRaid = Inr (0, parts)"
    "SsdPartitionBuilder_GetMinCapacity devSize devState ds = Inr C" "2 * 268435456 \<le> C" "C < 2 ^ 50"
  shows "\<exists>mp up. parts = [mp, up] \<and> partType mp = META_SSD \<and> partType up = USER_DATA \<and>
    startLba (physicalSize mp) = 268435456 div 512 \<and> startLba (physicalSize mp) < lastLba mp \<and>
    lastLba mp = startLba (physicalSize up) \<and> lastLba up * 512 = C div 268435456 * 268435456 \<and> lastLba up * 512 \<le> C"
proof -
  have "2 \<le> C div 268435456" using assms(3) by (simp add: less_eq_div_iff_mult_less_eq)
  from segment_counts [OF assms(2) this assms(4)]
  obtain metaSeg userSeg where seg: "SsdPartitionBuilder_GetSegmentCount devSize devState META_SSD ds = Inr metaSeg"
    "SsdPartitionBuilder_GetSegmentCount devSize devState USER_DATA ds = Inr userSeg"
    "1 + metaSeg + userSeg = C div 268435456" "0 < metaSeg" by blast
  let ?nvm = "case nvm of None \<Rightarrow> 0 | Some d \<Rightarrow> devSize d div BLOCK_SIZE_BYTE"
  obtain mp where mp: "StripePartition_Create create numaCount 524288 metaSeg ?nvm (StripePartition_new META_SSD ds metaRaid) = (0, mp)"
    using assms(1) by (auto simp: PartitionFactory_SplitSsdPartitions_def seg split: prod.splits if_splits)
  obtain up where up: "StripePartition_Create create numaCount (lastLba mp) userSeg ?nvm (StripePartition_new USER_DATA ds dataRaid) = (0, up)"
    and parts: "parts = [mp, up]"
    using assms(1) by (auto simp: PartitionFactory_SplitSsdPartitions_def seg mp split: prod.splits if_splits)
  note m = Create_ok [OF mp] and u = Create_ok [OF up]
  have S: "C div 268435456 < 2 ^ 22" using assms(4) by (simp add: less_mult_imp_div_less)
  have ml: "lastLba mp = 524288 + 524288 * metaSeg" using m S seg(3) by simp
  have ul: "lastLba up = 524288 * (C div 268435456)" using u S seg(3) by (simp add: ml flip: seg(3))
  have ty: "partType mp = META_SSD" "partType up = USER_DATA" using m u by simp_all
  have "startLba (physicalSize mp) = 524288" "startLba (physicalSize up) = lastLba mp" using m u by simp_all
  moreover have "lastLba up * 512 = C div 268435456 * 268435456" by (simp add: ul)
  moreover have "C div 268435456 * 268435456 \<le> C" by (rule div_times_less_eq_dividend)
  ultimately show ?thesis using parts ty ml seg(4) by simp
qed

section \<open>Sample partitions\<close>

text \<open>A RAID 10 partition of two devices, and one of more than \<open>2 ^ 26\<close> stripes.\<close>

definition noPools :: "nat \<Rightarrow> nat \<Rightarrow> BufferPool option" where
  "noPools sz numa = None"

definition samplePart :: "nat \<Rightarrow> StripePartition" where
  "samplePart segCnt = snd (StripePartition_Create noPools 1 524288 segCnt 0 (StripePartition_new META_SSD [10, 11] RAID10))"

lemmas samplePart_eval = samplePart_def StripePartition_Create_def StripePartition_SetMethod_def StripePartition_new_def Let_def
  Partition_UpdateLastLba_def StripePartition_SetPhysicalAddress_def Method_CheckNumofDevsToConfigure_def
  Raid10_CheckNumofDevsToConfigure_def StripePartition_SetLogicalAddress_def Raid10_new_def u32_def u64_def

lemma samplePart_Create:
  "StripePartition_Create noPools 1 524288 segCnt 0 (StripePartition_new META_SSD [10, 11] RAID10) = (0, samplePart segCnt)"
  by (simp add: samplePart_eval)

lemma samplePart_created: "segCnt < 2 ^ 22 \<Longrightarrow> created (samplePart segCnt)"
  unfolding created_def
  by (rule exI [of _ noPools], rule exI [of _ 1], rule exI [of _ 524288], rule exI [of _ segCnt], rule exI [of _ 0],
      rule exI [of _ META_SSD], rule exI [of _ "[10, 11]"], rule exI [of _ RAID10]) (simp only: samplePart_Create, simp)

lemma samplePart_fields:
  "raidType (samplePart 2) = RAID10" "devs (samplePart n) = [10, 11]" "totalStripes (logicalSize (samplePart 2)) = 2048"
  "plsBlksPerStripe (logicalSize (samplePart 2)) = 64" "minWriteBlkCnt (logicalSize (samplePart 2)) = 1"
  "startLba (physicalSize (samplePart 2)) = 524288" "lastLba (samplePart 2) = 1572864"
  "totalStripes (logicalSize (samplePart 131072)) = 134217728"
  by (simp_all add: samplePart_eval)

definition sampleWrite :: LogicalWriteEntry where
  "sampleWrite = \<lparr>lweAddr = \<lparr>lsaStripe = 3, lsaOffset = 5\<rparr>, lweBlkCnt = 2, lweBuffers = [BufferEntry_new 4096 2 False]\<rparr>"

definition sampleMemory :: memory where
  "sampleMemory = (\<lambda>_. 0)"

theorem writes_reach_reads_witness:
  "\<exists>ws p' m'. StripePartition_Convert 0 sampleWrite (samplePart 2, sampleMemory) = Inr (Inr (ws, p', m')) \<and>
     (\<exists>a. StripePartition_Translate \<lparr>lsaStripe = 3, lsaOffset = 6\<rparr> (samplePart 2) = Inr (Inr a) \<and>
       writesBlock ws a (blockOf (lweBuffers sampleWrite) 1))"
proof -
  have "Partition_IsValidEntry sampleWrite (samplePart 2)" "1 \<le> lweBlkCnt sampleWrite" "wellBuffered sampleWrite"
    "lsaStripe (lweAddr sampleWrite) = 3" "lsaOffset (lweAddr sampleWrite) = 5" "1 < lweBlkCnt sampleWrite"
    by (simp_all add: samplePart_fields Partition_IsValidEntry_def sampleWrite_def wellBuffered_def BufferEntry_new_def)
  then show ?thesis
    using writes_reach_reads [of "samplePart 2" sampleWrite 0 sampleMemory] samplePart_created [of 2]
    by (fastforce simp: samplePart_fields)
qed

theorem translate_injective_witness:
  "\<exists>a b. StripePartition_Translate \<lparr>lsaStripe = 3, lsaOffset = 6\<rparr> (samplePart 2) = Inr (Inr a) \<and>
     StripePartition_Translate \<lparr>lsaStripe = 4, lsaOffset = 6\<rparr> (samplePart 2) = Inr (Inr b) \<and> a \<noteq> b"
  using translate_injective [OF samplePart_created [of 2], of "\<lparr>lsaStripe = 3, lsaOffset = 6\<rparr>" "\<lparr>lsaStripe = 4, lsaOffset = 6\<rparr>"]
  by (auto simp: samplePart_fields Partition_IsValidAddress_def)

theorem high_stripes_misread_witness:
  "\<exists>a. StripePartition_F2PTranslate (samplePart 131072) \<lparr>ftStripe = 67108869, ftOffset = 70\<rparr> = Inr a \<and>
     a = physAt (samplePart 131072) 5 70"
  using high_stripes_misread [OF samplePart_created [of 131072], of 67108869
      "[BufferEntry_new 0 64 False, BufferEntry_new 262144 64 False]" 70]
  by (auto simp: samplePart_fields BufferEntry_new_def)

definition oneFault :: "nat \<Rightarrow> ArrayDeviceState" where
  "oneFault d = (if d = 10 then ArrayDeviceState.FAULT else ArrayDeviceState.NORMAL)"

theorem recovery_reads_normal_devices_witness:
  "\<exists>srcs f. StripePartition_GetRecoverMethod \<lparr>lba = 524288, arrayDev = 10\<rparr> (samplePart 2) = Inr (Inr (srcs, Some f)) \<and>
    (\<forall>s\<in>set srcs. oneFault (arrayDev s) = ArrayDeviceState.NORMAL)"
proof -
  have s: "StripePartition_GetRaidState oneFault (samplePart 2) = Inr DEGRADED"
    by (simp add: samplePart_eval StripePartition_GetRaidState_def
      Method_GetRaidState_def Raid10_GetRaidState_def oneFault_def Raid10_GetMirrorIndex_def)
  have t: "StripePartition_Translate \<lparr>lsaStripe = 0, lsaOffset = 0\<rparr> (samplePart 2) = Inr (Inr \<lparr>lba = 524288, arrayDev = 10\<rparr>)"
    by (simp add: samplePart_eval StripePartition_Translate_def
      Method_Translate_def Raid10_Translate_def Partition_IsValidAddress_def StripePartition_F2PTranslate_def)
  show ?thesis
    using recovery_reads_normal_devices [OF samplePart_created [of 2] _ _ _ _ s _ _ t] oneFault_def [of 10]
    by (auto simp: samplePart_fields Partition_IsValidAddress_def)
qed

definition sampleDevSize :: "nat \<Rightarrow> nat" where
  "sampleDevSize d = 2 ^ 40"

definition sampleSplit :: "(int \<times> StripePartition list) result" where
  "sampleSplit = PartitionFactory_SplitSsdPartitions noPools 1 sampleDevSize (\<lambda>_. ArrayDeviceState.NORMAL) None [10, 11] RAID10 RAID0"

theorem partitions_fit_witness:
  "\<exists>mp up. sampleSplit = Inr (0, [mp, up]) \<and> lastLba mp = startLba (physicalSize up) \<and> lastLba up * 512 = 2 ^ 40"
proof -
  have "\<exists>parts. sampleSplit = Inr (0, parts)"
    by (simp add: sampleSplit_def PartitionFactory_SplitSsdPartitions_def SsdPartitionBuilder_GetSegmentCount_def
      SsdPartitionBuilder_GetMinCapacity_def sampleDevSize_def DIV_ROUND_UP_def u64_def u32_def
      StripePartition_Create_def StripePartition_SetMethod_def StripePartition_new_def Let_def
      Partition_UpdateLastLba_def StripePartition_SetPhysicalAddress_def Method_CheckNumofDevsToConfigure_def
      Raid10_CheckNumofDevsToConfigure_def Raid0_CheckNumofDevsToConfigure_def StripePartition_SetLogicalAddress_def)
  then obtain parts where p: "sampleSplit = Inr (0, parts)" by blast
  have c: "SsdPartitionBuilder_GetMinCapacity sampleDevSize (\<lambda>_. ArrayDeviceState.NORMAL) [10, 11] = Inr (2 ^ 40)"
    by (simp add: SsdPartitionBuilder_GetMinCapacity_def sampleDevSize_def)
  show ?thesis
    using partitions_fit [OF p [unfolded sampleSplit_def] c] p by auto
qed

end
