(* ===== verification/PartitionManager.thy ===== *)
theory PartitionManager
  imports Partition
begin

text \<open>
  The partitions of an array as a whole (\<^verbatim>\<open>src/array/partition\<close>): the builders of the NVM partitions, the factory that
  makes all partitions of an array, the services they register and the manager that holds them.
\<close>

section \<open>NVM partitions\<close>

definition NvmPartition_new :: "PartitionType \<Rightarrow> nat list \<Rightarrow> Partition" where
  "NvmPartition_new ptype ds =
     \<lparr>logicalSize = \<lparr>minWriteBlkCnt = 0, plsBlksPerChunk = 0, plsBlksPerStripe = 0, plsChunksPerStripe = 0,
        plsStripesPerSegment = 0, totalStripes = 0, totalSegments = 0\<rparr>,
      physicalSize = \<lparr>startLba = 0, ppsBlksPerChunk = 0, ppsChunksPerStripe = 0, ppsStripesPerSegment = 0, ppsTotalSegments = 0\<rparr>,
      devs = ds, lastLba = 0, partType = ptype\<rparr>"

text \<open>A chain of builders, each with its type and the blocks of a chunk.\<close>

fun NvmPartitionBuilder_Build ::
    "(nat \<Rightarrow> nat) \<Rightarrow> nat \<Rightarrow> (PartitionType \<times> nat) list \<Rightarrow> nat \<Rightarrow> Partition list \<Rightarrow> int \<times> Partition list" where
  "NvmPartitionBuilder_Build devSize nvm [] start out = (0, out)"
| "NvmPartitionBuilder_Build devSize nvm ((ptype, blksPerChunk) # next) start out =
     (let (ret, part) = NvmPartition_Create devSize start blksPerChunk (NvmPartition_new ptype [nvm])
      in if ret \<noteq> 0 then (ret, out) else NvmPartitionBuilder_Build devSize nvm next (lastLba part) (out @ [part]))"

section \<open>All partitions of an array\<close>

datatype AnyPartition = Nvm Partition | Stripe StripePartition

type_synonym Partitions = "PartitionType \<rightharpoonup> AnyPartition"

definition PartitionFactory_SplitNvmPartitions ::
    "(nat \<Rightarrow> nat) \<Rightarrow> nat \<Rightarrow> StripePartition \<Rightarrow> StripePartition \<Rightarrow> int \<times> Partition list" where
  "PartitionFactory_SplitNvmPartitions devSize nvm metaSsd userData =
     NvmPartitionBuilder_Build devSize nvm [(META_NVM, plsBlksPerStripe (logicalSize metaSsd)),
        (WRITE_BUFFER, plsBlksPerStripe (logicalSize userData))] NVM_START_LBA []"

definition partitionsOf :: "StripePartition list \<Rightarrow> Partition list \<Rightarrow> Partitions" where
  "partitionsOf ss ns = map_of (map (\<lambda>p. (partType p, Stripe p)) ss @ map (\<lambda>p. (partType p, Nvm p)) ns)"

text \<open>The two SSD partitions are there when their construction has succeeded.\<close>

definition PartitionFactory_CreatePartitions ::
    "(nat \<Rightarrow> nat \<Rightarrow> BufferPool option) \<Rightarrow> nat \<Rightarrow> (nat \<Rightarrow> nat) \<Rightarrow> (nat \<Rightarrow> ArrayDeviceState) \<Rightarrow> nat option \<Rightarrow> nat list \<Rightarrow>
     RaidTypeEnum \<Rightarrow> RaidTypeEnum \<Rightarrow> (int \<times> Partitions) result" where
  "PartitionFactory_CreatePartitions create numaCount devSize devState nvm data metaRaid dataRaid =
     andThen (PartitionFactory_SplitSsdPartitions create numaCount devSize devState nvm data metaRaid dataRaid) (\<lambda>(ret, ss).
       case nvm of
         Some d \<Rightarrow> if ret = 0
           then let (ret1, ns) = PartitionFactory_SplitNvmPartitions devSize d (ss ! 0) (ss ! 1) in Inr (ret1, partitionsOf ss ns)
           else Inr (ret, Map.empty)
       | None \<Rightarrow> Inr (ret, if ret = 0 then partitionsOf ss [] else Map.empty))"

section \<open>Services\<close>

text \<open>What the partitions offer to the rest of the array; the entries stand for the objects.\<close>

record PartitionServices =
  translator :: "PartitionType \<rightharpoonup> AnyPartition"
  recover :: "PartitionType \<rightharpoonup> AnyPartition"
  rebuildTargets :: "StripePartition list"

definition PartitionServices_AddTranslator :: "PartitionType \<Rightarrow> AnyPartition \<Rightarrow> PartitionServices \<Rightarrow> PartitionServices" where
  "PartitionServices_AddTranslator t p s =
     (if translator s t = None then s\<lparr>translator := (translator s)(t \<mapsto> p)\<rparr> else s)"

definition PartitionServices_AddRecover :: "PartitionType \<Rightarrow> AnyPartition \<Rightarrow> PartitionServices \<Rightarrow> PartitionServices" where
  "PartitionServices_AddRecover t p s =
     (if recover s t = None then s\<lparr>recover := (recover s)(t \<mapsto> p)\<rparr> else s)"

definition PartitionServices_AddRebuildTarget :: "StripePartition \<Rightarrow> PartitionServices \<Rightarrow> PartitionServices" where
  "PartitionServices_AddRebuildTarget p s = s\<lparr>rebuildTargets := rebuildTargets s @ [p]\<rparr>"

definition PartitionServices_Clear :: "PartitionServices \<Rightarrow> PartitionServices" where
  "PartitionServices_Clear s = s\<lparr>translator := Map.empty, recover := Map.empty, rebuildTargets := []\<rparr>"

definition Method_IsRecoverable :: "Method \<Rightarrow> bool" where
  "Method_IsRecoverable meth = (case methodType meth of RAID0 \<Rightarrow> False | NONE \<Rightarrow> False | _ \<Rightarrow> True)"

definition NvmPartition_RegisterService :: "Partition \<Rightarrow> PartitionServices \<Rightarrow> PartitionServices" where
  "NvmPartition_RegisterService p = PartitionServices_AddTranslator (partType p) (Nvm p)"

definition StripePartition_RegisterService :: "StripePartition \<Rightarrow> PartitionServices \<Rightarrow> PartitionServices result" where
  "StripePartition_RegisterService p s =
     (let s1 = PartitionServices_AddTranslator (partType p) (Stripe p) s
      in case ftMethod p of
           None \<Rightarrow> Inl Exception
         | Some meth \<Rightarrow>
             Inr (if Method_IsRecoverable meth
                  then PartitionServices_AddRecover (partType p) (Stripe p) (PartitionServices_AddRebuildTarget p s1) else s1))"

definition RegisterService :: "AnyPartition \<Rightarrow> PartitionServices \<Rightarrow> PartitionServices result" where
  "RegisterService part s =
     (case part of Nvm p \<Rightarrow> Inr (NvmPartition_RegisterService p s) | Stripe p \<Rightarrow> StripePartition_RegisterService p s)"

section \<open>The manager\<close>

definition anyType :: "AnyPartition \<Rightarrow> PartitionType" where
  "anyType part = (case part of Nvm p \<Rightarrow> partType p | Stripe p \<Rightarrow> partType p)"

definition PartitionManager_GetSizeInfo :: "PartitionType \<Rightarrow> Partitions \<Rightarrow> PartitionLogicalSize option" where
  "PartitionManager_GetSizeInfo t pm =
     (case pm t of None \<Rightarrow> None | Some (Nvm p) \<Rightarrow> Some (logicalSize p) | Some (Stripe p) \<Rightarrow> Some (logicalSize p))"

fun CreatePartitions_loop :: "AnyPartition list \<Rightarrow> Partitions \<times> PartitionServices \<Rightarrow> (Partitions \<times> PartitionServices) result" where
  "CreatePartitions_loop [] (pm, s) = Inr (pm, s)"
| "CreatePartitions_loop (part # ps) (pm, s) =
     andThen (RegisterService part s) (\<lambda>s1. CreatePartitions_loop ps (pm(anyType part \<mapsto> part), s1))"

definition partitionTypes :: "PartitionType list" where
  "partitionTypes = [META_NVM, WRITE_BUFFER, META_SSD, USER_DATA, JOURNAL_SSD]"

definition PartitionManager_CreatePartitions ::
    "(nat \<Rightarrow> nat \<Rightarrow> BufferPool option) \<Rightarrow> nat \<Rightarrow> (nat \<Rightarrow> nat) \<Rightarrow> (nat \<Rightarrow> ArrayDeviceState) \<Rightarrow> nat option \<Rightarrow> nat list \<Rightarrow>
     RaidTypeEnum \<Rightarrow> RaidTypeEnum \<Rightarrow> Partitions \<times> PartitionServices \<Rightarrow> (int \<times> Partitions \<times> PartitionServices) result" where
  "PartitionManager_CreatePartitions create numaCount devSize devState nvm data metaRaid dataRaid st =
     andThen (PartitionFactory_CreatePartitions create numaCount devSize devState nvm data metaRaid dataRaid) (\<lambda>(ret, out).
       if ret = 0
       then andThen (CreatePartitions_loop (List.map_filter out partitionTypes) st) (\<lambda>st1. Inr (ret, st1))
       else Inr (ret, st))"

definition PartitionManager_DeletePartitions :: "Partitions \<Rightarrow> Partitions" where
  "PartitionManager_DeletePartitions pm = Map.empty"

text \<open>The states are compared as numbers.\<close>

definition raidRank :: "RaidState \<Rightarrow> nat" where
  "raidRank r = (case r of RaidState.NORMAL \<Rightarrow> 0 | DEGRADED \<Rightarrow> 1 | FAILURE \<Rightarrow> 2)"

definition raidMax :: "RaidState \<Rightarrow> RaidState \<Rightarrow> RaidState" where
  "raidMax a b = (if raidRank a < raidRank b then b else a)"

definition AnyPartition_GetRaidState :: "(nat \<Rightarrow> ArrayDeviceState) \<Rightarrow> AnyPartition option \<Rightarrow> RaidState result" where
  "AnyPartition_GetRaidState devState part =
     (case part of
        None \<Rightarrow> Inl Exception | Some (Nvm p) \<Rightarrow> Inr RaidState.NORMAL | Some (Stripe p) \<Rightarrow> StripePartition_GetRaidState devState p)"

definition PartitionManager_GetRaidState :: "(nat \<Rightarrow> ArrayDeviceState) \<Rightarrow> Partitions \<Rightarrow> RaidState result" where
  "PartitionManager_GetRaidState devState pm =
     andThen (AnyPartition_GetRaidState devState (pm META_SSD)) (\<lambda>metaRs.
       andThen (AnyPartition_GetRaidState devState (pm USER_DATA)) (\<lambda>dataRs. Inr (raidMax metaRs dataRs)))"

definition PartitionManager_GetRaidType :: "PartitionType \<Rightarrow> Partitions \<Rightarrow> RaidTypeEnum" where
  "PartitionManager_GetRaidType t pm = (case pm t of Some (Stripe p) \<Rightarrow> raidType p | _ \<Rightarrow> NONE)"

end
