(* ===== verification/StripeLocker.thy ===== *)
theory StripeLocker
  imports PosPrelude "HOL-Library.Multiset"
begin

text \<open>
  The locks of stripes between writes and the rebuild (\<^verbatim>\<open>src/array/service/io_locker\<close>). A locker has a range of
  stripes that the rebuild works on: a stripe in the range is locked by one client at a time, a stripe outside
  it by any number of writes. The rebuild takes a whole range at once. Devices that mirror each other share a locker.

  Every operation of a locker holds its mutex; \<open>TryLock\<close> gives up when the mutex is taken, which the argument
  \<open>acquired\<close> says. Pointers to devices and lockers are numbers. The loops over a range are for a last stripe below
  the largest 32 bit number, with which those of the sources would not end.
\<close>

section \<open>Lockers\<close>

record BusyRange =
  lower :: nat
  upper :: nat

definition BusyRange_SetRange :: "nat \<Rightarrow> nat \<Rightarrow> BusyRange \<Rightarrow> BusyRange" where
  "BusyRange_SetRange from to r = r\<lparr>lower := from, upper := to\<rparr>"

definition BusyRange_IsBusy :: "nat \<Rightarrow> BusyRange \<Rightarrow> bool" where
  "BusyRange_IsBusy val r \<longleftrightarrow> val \<ge> lower r \<and> val \<le> upper r"

record StripeLocker =
  workingSet :: "nat multiset"
  busySet :: "nat set"
  busyRange :: "BusyRange option"
  isBusyRangeChanging :: bool

definition StripeLockerNormalState_TryLock :: "nat \<Rightarrow> StripeLocker \<Rightarrow> bool \<times> StripeLocker" where
  "StripeLockerNormalState_TryLock i l = (True, l\<lparr>workingSet := add_mset i (workingSet l)\<rparr>)"

definition StripeLockerNormalState_Unlock :: "nat \<Rightarrow> StripeLocker \<Rightarrow> StripeLocker" where
  "StripeLockerNormalState_Unlock i l =
     (if i \<in># workingSet l then l\<lparr>workingSet := workingSet l - {#i#}\<rparr> else l)"

definition StripeLockerNormalState_Exists :: "nat \<Rightarrow> StripeLocker \<Rightarrow> bool" where
  "StripeLockerNormalState_Exists i l \<longleftrightarrow> i \<in># workingSet l"

definition StripeLockerBusyState_TryLock :: "nat \<Rightarrow> StripeLocker \<Rightarrow> bool \<times> StripeLocker" where
  "StripeLockerBusyState_TryLock i l =
     (if i \<notin> busySet l then (True, l\<lparr>busySet := insert i (busySet l)\<rparr>) else (False, l))"

definition StripeLockerBusyState_Unlock :: "nat \<Rightarrow> StripeLocker \<Rightarrow> StripeLocker" where
  "StripeLockerBusyState_Unlock i l = l\<lparr>busySet := busySet l - {i}\<rparr>"

definition StripeLockerBusyState_Count :: "StripeLocker \<Rightarrow> nat" where
  "StripeLockerBusyState_Count l = u32 (card (busySet l))"

definition StripeLocker_new :: StripeLocker where
  "StripeLocker_new = \<lparr>workingSet = {#}, busySet = {}, busyRange = None, isBusyRangeChanging = False\<rparr>"

fun TryBusyLock_loop :: "nat list \<Rightarrow> StripeLocker \<Rightarrow> StripeLocker result" where
  "TryBusyLock_loop [] l = Inr l"
| "TryBusyLock_loop (i # is) l =
     (let (ret, l1) = StripeLockerBusyState_TryLock i l in andThen (assertion ret) (\<lambda>_. TryBusyLock_loop is l1))"

definition StripeLocker_TryBusyLock :: "nat \<Rightarrow> nat \<Rightarrow> StripeLocker \<Rightarrow> (bool \<times> StripeLocker) result" where
  "StripeLocker_TryBusyLock from to l =
     (let l1 = l\<lparr>isBusyRangeChanging := True\<rparr>
      in if StripeLockerBusyState_Count l1 > 0 then Inr (False, l1)
         else if \<exists>i\<in>set [from..<Suc to]. StripeLockerNormalState_Exists i l1 then Inr (False, l1)
         else let r = (case busyRange l1 of None \<Rightarrow> \<lparr>lower = 0, upper = 0\<rparr> | Some r \<Rightarrow> r);
                  l2 = l1\<lparr>busyRange := Some (BusyRange_SetRange from to r)\<rparr>
              in andThen (TryBusyLock_loop [from..<Suc to] l2) (\<lambda>l3. Inr (True, l3\<lparr>isBusyRangeChanging := False\<rparr>)))"

definition StripeLocker_ResetBusyLock :: "StripeLocker \<Rightarrow> bool \<times> StripeLocker" where
  "StripeLocker_ResetBusyLock l =
     (if StripeLockerBusyState_Count l > 0 then (False, l)
      else (True, l\<lparr>busyRange := None, isBusyRangeChanging := False\<rparr>))"

definition inBusyRange :: "nat \<Rightarrow> StripeLocker \<Rightarrow> bool" where
  "inBusyRange i l = (case busyRange l of None \<Rightarrow> False | Some r \<Rightarrow> BusyRange_IsBusy i r)"

definition StripeLocker_TryLock :: "bool \<Rightarrow> nat \<Rightarrow> StripeLocker \<Rightarrow> bool \<times> StripeLocker" where
  "StripeLocker_TryLock acquired i l =
     (if acquired
      then if isBusyRangeChanging l then (False, l)
           else if inBusyRange i l then StripeLockerBusyState_TryLock i l
           else StripeLockerNormalState_TryLock i l
      else (False, l))"

definition StripeLocker_Unlock :: "nat \<Rightarrow> StripeLocker \<Rightarrow> StripeLocker" where
  "StripeLocker_Unlock i l =
     (if inBusyRange i l then StripeLockerBusyState_Unlock i l else StripeLockerNormalState_Unlock i l)"

lemmas locker_defs = BusyRange_SetRange_def BusyRange_IsBusy_def StripeLockerNormalState_TryLock_def
  StripeLockerNormalState_Unlock_def StripeLockerNormalState_Exists_def StripeLockerBusyState_TryLock_def
  StripeLockerBusyState_Unlock_def StripeLockerBusyState_Count_def

section \<open>Lockers of the devices\<close>

text \<open>The pairs of mirrors; inserting does not replace an entry.\<close>

type_synonym LockerGroup = "nat \<rightharpoonup> nat"

definition emplace :: "'k \<Rightarrow> 'v \<Rightarrow> ('k \<rightharpoonup> 'v) \<Rightarrow> ('k \<rightharpoonup> 'v)" where
  "emplace k v m = (case m k of None \<Rightarrow> m(k \<mapsto> v) | Some _ \<Rightarrow> m)"

fun AddDevice_loop :: "nat list \<Rightarrow> nat \<Rightarrow> nat list \<Rightarrow> LockerGroup \<Rightarrow> LockerGroup" where
  "AddDevice_loop d half [] g = g"
| "AddDevice_loop d half (i # is) g =
     AddDevice_loop d half is (emplace (d ! (i + half)) (d ! i) (emplace (d ! i) (d ! (i + half)) g))"

definition LockerGroup_AddDevice :: "nat list \<Rightarrow> LockerGroup \<Rightarrow> LockerGroup" where
  "LockerGroup_AddDevice d g = AddDevice_loop d (length d div 2) [0..<length d div 2] g"

definition LockerGroup_RemoveDevice :: "nat list \<Rightarrow> LockerGroup \<Rightarrow> LockerGroup" where
  "LockerGroup_RemoveDevice d g = fold (\<lambda>dev g. g(dev := None)) d g"

definition LockerGroup_GetMirror :: "nat \<Rightarrow> LockerGroup \<Rightarrow> nat option" where
  "LockerGroup_GetMirror dev g = g dev"

text \<open>The lockers of the devices are addresses in a heap; \<open>nextLocker\<close> is the address of the next \<open>new\<close>.\<close>

record IOLocker =
  lockers :: "nat \<rightharpoonup> nat"
  pairGroup :: LockerGroup
  lockerHeap :: "nat \<rightharpoonup> StripeLocker"
  nextLocker :: nat

definition IOLocker_Find :: "nat \<Rightarrow> IOLocker \<Rightarrow> nat option" where
  "IOLocker_Find dev s = lockers s dev"

definition Register_dev :: "nat \<Rightarrow> IOLocker \<Rightarrow> IOLocker" where
  "Register_dev d s =
     (case IOLocker_Find d s of
        Some _ \<Rightarrow> s
      | None \<Rightarrow> (case LockerGroup_GetMirror d (pairGroup s) of
            None \<Rightarrow> s
          | Some m \<Rightarrow> s\<lparr>lockerHeap := (lockerHeap s)(nextLocker s \<mapsto> StripeLocker_new), nextLocker := nextLocker s + 1,
                        lockers := emplace m (nextLocker s) (emplace d (nextLocker s) (lockers s))\<rparr>))"

definition IOLocker_Register :: "nat list \<Rightarrow> IOLocker \<Rightarrow> bool \<times> IOLocker" where
  "IOLocker_Register devList s = (True, fold Register_dev devList (s\<lparr>pairGroup := LockerGroup_AddDevice devList (pairGroup s)\<rparr>))"

definition Unregister_dev :: "nat \<Rightarrow> IOLocker \<Rightarrow> IOLocker" where
  "Unregister_dev d s =
     (case IOLocker_Find d s of
        None \<Rightarrow> s
      | Some locker \<Rightarrow>
          let l1 = (lockers s)(d := None);
              l2 = (case LockerGroup_GetMirror d (pairGroup s) of None \<Rightarrow> l1 | Some m \<Rightarrow> l1(m := None))
          in s\<lparr>lockers := l2, lockerHeap := (lockerHeap s)(locker := None)\<rparr>)"

definition IOLocker_Unregister :: "nat list \<Rightarrow> IOLocker \<Rightarrow> IOLocker" where
  "IOLocker_Unregister devList s =
     (let s1 = fold Unregister_dev devList s in s1\<lparr>pairGroup := LockerGroup_RemoveDevice devList (pairGroup s1)\<rparr>)"

text \<open>An operation of a locker on the heap; a dangling pointer is a fault.\<close>

definition onLocker :: "nat \<Rightarrow> (StripeLocker \<Rightarrow> 'a \<times> StripeLocker) \<Rightarrow> IOLocker \<Rightarrow> ('a \<times> IOLocker) result" where
  "onLocker a f s =
     (case lockerHeap s a of
        None \<Rightarrow> Inl Exception
      | Some l \<Rightarrow> let (r, l1) = f l in Inr (r, s\<lparr>lockerHeap := (lockerHeap s)(a \<mapsto> l1)\<rparr>))"

definition IOLocker_TryBusyLock :: "nat \<Rightarrow> nat \<Rightarrow> nat \<Rightarrow> IOLocker \<Rightarrow> (bool \<times> IOLocker) result" where
  "IOLocker_TryBusyLock dev from to s =
     (case IOLocker_Find dev s of
        None \<Rightarrow> Inr (True, s)
      | Some a \<Rightarrow> (case lockerHeap s a of
            None \<Rightarrow> Inl Exception
          | Some l \<Rightarrow> andThen (StripeLocker_TryBusyLock from to l) (\<lambda>(ret, l1).
              Inr (ret, s\<lparr>lockerHeap := (lockerHeap s)(a \<mapsto> l1)\<rparr>))))"

definition IOLocker_ResetBusyLock :: "nat \<Rightarrow> IOLocker \<Rightarrow> (bool \<times> IOLocker) result" where
  "IOLocker_ResetBusyLock dev s =
     (case IOLocker_Find dev s of None \<Rightarrow> Inr (True, s) | Some a \<Rightarrow> onLocker a StripeLocker_ResetBusyLock s)"

fun unlockAll :: "nat list \<Rightarrow> nat \<Rightarrow> IOLocker \<Rightarrow> IOLocker result" where
  "unlockAll [] val s = Inr s"
| "unlockAll (a # as) val s = andThen (onLocker a (\<lambda>l. ((), StripeLocker_Unlock val l)) s) (\<lambda>(_, s1). unlockAll as val s1)"

text \<open>The loop over the lockers; \<open>locked\<close> holds those already locked, the last one first.\<close>

fun TryLock_loop :: "(nat \<Rightarrow> bool) \<Rightarrow> nat list \<Rightarrow> nat list \<Rightarrow> nat \<Rightarrow> IOLocker \<Rightarrow> (bool \<times> IOLocker) result" where
  "TryLock_loop acquired locked [] val s = Inr (True, s)"
| "TryLock_loop acquired locked (a # as) val s =
     andThen (onLocker a (StripeLocker_TryLock (acquired a) val) s) (\<lambda>(ret, s1).
       if ret then TryLock_loop acquired (a # locked) as val s1
       else andThen (unlockAll locked val s1) (\<lambda>s2. Inr (False, s2)))"

text \<open>The lockers of a set of devices in the order of their addresses.\<close>

definition lockersByGroup :: "nat list \<Rightarrow> IOLocker \<Rightarrow> nat list" where
  "lockersByGroup devs s = sort (remdups (List.map_filter (\<lambda>d. IOLocker_Find d s) devs))"

definition IOLocker_TryLock :: "(nat \<Rightarrow> bool) \<Rightarrow> nat list \<Rightarrow> nat \<Rightarrow> IOLocker \<Rightarrow> (bool \<times> IOLocker) result" where
  "IOLocker_TryLock acquired devs val s =
     (if \<exists>d\<in>set devs. IOLocker_Find d s = None then Inr (True, s)
      else TryLock_loop acquired [] (lockersByGroup devs s) val s)"

definition IOLocker_UnlockDev :: "nat \<Rightarrow> nat \<Rightarrow> IOLocker \<Rightarrow> IOLocker result" where
  "IOLocker_UnlockDev dev val s =
     (case IOLocker_Find dev s of None \<Rightarrow> Inr s | Some a \<Rightarrow> unlockAll [a] val s)"

definition IOLocker_Unlock :: "nat list \<Rightarrow> nat \<Rightarrow> IOLocker \<Rightarrow> IOLocker result" where
  "IOLocker_Unlock devs val s = unlockAll (lockersByGroup devs s) val s"

section \<open>Writes and the rebuild on one locker\<close>

text \<open>
  A locker with the stripes that writes hold, one entry for each lock taken, and those the rebuild holds. A client
  unlocks only what it has locked; otherwise the operations come in any order.
\<close>

record LockRun =
  locker :: StripeLocker
  writers :: "nat multiset"
  rebuilding :: "nat set"

inductive lockStep :: "LockRun \<Rightarrow> LockRun \<Rightarrow> bool" where
  tryLock: "StripeLocker_TryLock acquired i (locker r) = (ret, l) \<Longrightarrow>
     lockStep r (r\<lparr>locker := l, writers := (if ret then add_mset i (writers r) else writers r)\<rparr>)"
| unlock: "i \<in># writers r \<Longrightarrow> lockStep r (r\<lparr>locker := StripeLocker_Unlock i (locker r), writers := writers r - {#i#}\<rparr>)"
| tryBusyLock: "to < 2 ^ 32 - 1 \<Longrightarrow> StripeLocker_TryBusyLock from to (locker r) = Inr (ret, l) \<Longrightarrow>
     lockStep r (r\<lparr>locker := l, rebuilding := (if ret then {from..to} else rebuilding r)\<rparr>)"
| rebuilt: "i \<in> rebuilding r \<Longrightarrow> lockStep r (r\<lparr>locker := StripeLocker_Unlock i (locker r), rebuilding := rebuilding r - {i}\<rparr>)"
| resetBusyLock: "StripeLocker_ResetBusyLock (locker r) = (ret, l) \<Longrightarrow> lockStep r (r\<lparr>locker := l\<rparr>)"

inductive lockReach :: "LockRun \<Rightarrow> bool" where
  init: "lockReach \<lparr>locker = StripeLocker_new, writers = {#}, rebuilding = {}\<rparr>"
| step: "lockReach r \<Longrightarrow> lockStep r r' \<Longrightarrow> lockReach r'"

definition lock_inv :: "LockRun \<Rightarrow> bool" where
  "lock_inv r \<longleftrightarrow>
     busySet (locker r) = rebuilding r \<union> {i. i \<in># writers r \<and> inBusyRange i (locker r)} \<and>
     rebuilding r \<inter> set_mset (writers r) = {} \<and> rebuilding r \<subseteq> {i. inBusyRange i (locker r)} \<and>
     (\<forall>i. inBusyRange i (locker r) \<longrightarrow> count (writers r) i \<le> 1) \<and>
     workingSet (locker r) = filter_mset (\<lambda>i. \<not> inBusyRange i (locker r)) (writers r) \<and>
     (\<forall>b. busyRange (locker r) = Some b \<longrightarrow> upper b < 2 ^ 32 - 1)"

lemma lock_invD:
  assumes "lock_inv r"
  shows "busySet (locker r) = rebuilding r \<union> {i. i \<in># writers r \<and> inBusyRange i (locker r)}"
    "rebuilding r \<inter> set_mset (writers r) = {}" "\<And>i. i \<in> rebuilding r \<Longrightarrow> inBusyRange i (locker r)"
    "\<And>i. inBusyRange i (locker r) \<Longrightarrow> count (writers r) i \<le> 1"
    "workingSet (locker r) = filter_mset (\<lambda>i. \<not> inBusyRange i (locker r)) (writers r)"
    "\<And>b. busyRange (locker r) = Some b \<Longrightarrow> upper b < 2 ^ 32 - 1"
  using assms by (auto simp: lock_inv_def)

text \<open>The count of the busy stripes does not wrap.\<close>

lemma busy_finite:
  assumes "lock_inv r"
  shows "finite (busySet (locker r))" "StripeLockerBusyState_Count (locker r) = 0 \<longleftrightarrow> busySet (locker r) = {}"
proof -
  note d = lock_invD [OF assms]
  have sub: "busySet (locker r) \<subseteq> {..<2 ^ 32 - 1}"
    using d(1,3,6) by (fastforce simp: inBusyRange_def BusyRange_IsBusy_def split: option.splits)
  then show f: "finite (busySet (locker r))" by (rule finite_subset) simp
  have "card (busySet (locker r)) \<le> 2 ^ 32 - 1" using card_mono [OF _ sub] by simp
  then have "card (busySet (locker r)) < 2 ^ 32" by simp
  then show "StripeLockerBusyState_Count (locker r) = 0 \<longleftrightarrow> busySet (locker r) = {}"
    using f by (simp add: StripeLockerBusyState_Count_def)
qed

lemma TryBusyLock_loop_eq:
  "distinct is \<Longrightarrow> set is \<inter> busySet l = {} \<Longrightarrow> TryBusyLock_loop is l = Inr (l\<lparr>busySet := set is \<union> busySet l\<rparr>)"
  by (induction "is" arbitrary: l) (auto simp: StripeLockerBusyState_TryLock_def)

text \<open>The rebuild gets a range just when no one holds a stripe of the old range or of the new one.\<close>

lemma TryBusyLock_eq:
  assumes "lock_inv r"
  shows "StripeLocker_TryBusyLock from to (locker r) =
    (if rebuilding r = {} \<and> (\<forall>i\<in>#writers r. \<not> inBusyRange i (locker r) \<and> i \<notin> {from..to})
     then Inr (True, (locker r)\<lparr>busySet := {from..to}, busyRange := Some \<lparr>lower = from, upper = to\<rparr>, isBusyRangeChanging := False\<rparr>)
     else Inr (False, (locker r)\<lparr>isBusyRangeChanging := True\<rparr>))"
proof -
  note d = lock_invD [OF assms] and b = busy_finite [OF assms]
  have c: "StripeLockerBusyState_Count ((locker r)\<lparr>isBusyRangeChanging := True\<rparr>) = StripeLockerBusyState_Count (locker r)"
    by (simp add: StripeLockerBusyState_Count_def)
  have e: "busySet (locker r) = {} \<longleftrightarrow> rebuilding r = {} \<and> (\<forall>i\<in>#writers r. \<not> inBusyRange i (locker r))" using d(1) by auto
  have w: "(\<exists>i\<in>set [from..<Suc to]. i \<in># workingSet (locker r)) \<longleftrightarrow>
      (\<exists>i\<in>#writers r. \<not> inBusyRange i (locker r) \<and> i \<in> {from..to})" using d(5) by auto
  show ?thesis
  proof (cases "busySet (locker r) = {}")
    case True
    have "BusyRange_SetRange from to x = \<lparr>lower = from, upper = to\<rparr>" for x
      by (simp add: BusyRange_SetRange_def)
    then show ?thesis
      using True b(2) e w by (auto simp: StripeLocker_TryBusyLock_def c Let_def TryBusyLock_loop_eq StripeLockerNormalState_Exists_def
          atLeastLessThanSuc_atLeastAtMost simp del: upt_Suc)
  next
    case False
    then show ?thesis using b(2) e by (auto simp: StripeLocker_TryBusyLock_def c Let_def)
  qed
qed

lemma inBusyRange_upd [simp]:
  "inBusyRange i (l\<lparr>workingSet := w\<rparr>) = inBusyRange i l" "inBusyRange i (l\<lparr>busySet := b\<rparr>) = inBusyRange i l"
  "inBusyRange i (l\<lparr>isBusyRangeChanging := c\<rparr>) = inBusyRange i l" "inBusyRange i (l\<lparr>busyRange := None\<rparr>) = False"
  "inBusyRange i (l\<lparr>busyRange := Some r\<rparr>) = BusyRange_IsBusy i r"
  by (simp_all add: inBusyRange_def)

lemma inBusyRange_Unlock [simp]: "inBusyRange j (StripeLocker_Unlock i l) = inBusyRange j l"
  by (simp add: StripeLocker_Unlock_def locker_defs)

lemma busyRange_Unlock [simp]: "busyRange (StripeLocker_Unlock i l) = busyRange l"
  by (simp add: StripeLocker_Unlock_def locker_defs)

lemma TryLock_inv:
  assumes "lock_inv r" "StripeLocker_TryLock acquired i (locker r) = (ret, l)"
  shows "lock_inv (r\<lparr>locker := l, writers := (if ret then add_mset i (writers r) else writers r)\<rparr>)"
proof (cases "acquired \<and> \<not> isBusyRangeChanging (locker r)")
  case True
  note d = lock_invD [OF assms(1)]
  show ?thesis
  proof (cases "inBusyRange i (locker r)")
    case b: True
    show ?thesis
    proof (cases "i \<in> busySet (locker r)")
      case True
      then show ?thesis using assms b by (auto simp: StripeLocker_TryLock_def locker_defs split: if_splits)
    next
      case False
      then have l: "ret" "l = (locker r)\<lparr>busySet := insert i (busySet (locker r))\<rparr>"
        using assms(2) b \<open>acquired \<and> _\<close> by (auto simp: StripeLocker_TryLock_def locker_defs)
      have "i \<notin># writers r" "i \<notin> rebuilding r" using False d(1) b by auto
      then show ?thesis using d b l unfolding lock_inv_def by (auto simp: not_in_iff)
    qed
  next
    case False
    then have l: "ret" "l = (locker r)\<lparr>workingSet := add_mset i (workingSet (locker r))\<rparr>"
      using assms(2) \<open>acquired \<and> _\<close> by (auto simp: StripeLocker_TryLock_def locker_defs)
    then show ?thesis using d False unfolding lock_inv_def by auto
  qed
next
  case False
  then have "\<not> ret" "l = locker r" using assms(2) by (auto simp: StripeLocker_TryLock_def split: if_splits)
  then show ?thesis using assms(1) by simp
qed

lemma Unlock_writer_inv:
  assumes "lock_inv r" "i \<in># writers r"
  shows "lock_inv (r\<lparr>locker := StripeLocker_Unlock i (locker r), writers := writers r - {#i#}\<rparr>)"
proof (cases "inBusyRange i (locker r)")
  case True
  note d = lock_invD [OF assms(1)]
  have l: "StripeLocker_Unlock i (locker r) = (locker r)\<lparr>busySet := busySet (locker r) - {i}\<rparr>"
    using True by (simp add: StripeLocker_Unlock_def locker_defs)
  have "count (writers r) i = 1" using d(4) [OF True] assms(2) by (simp add: le_less flip: count_greater_zero_iff)
  then have w: "j \<in># writers r - {#i#} \<longleftrightarrow> j \<in># writers r \<and> j \<noteq> i" for j
    by (auto simp flip: count_greater_zero_iff split: if_splits)
  have "i \<notin> rebuilding r" using d(2) assms(2) by blast
  then show ?thesis
    using d True unfolding lock_inv_def by (auto simp: l w filter_diff_mset split: if_splits)
next
  case False
  note d = lock_invD [OF assms(1)]
  have l: "StripeLocker_Unlock i (locker r) = (locker r)\<lparr>workingSet := workingSet (locker r) - {#i#}\<rparr>"
    using False assms(2) d(5) by (simp add: StripeLocker_Unlock_def locker_defs)
  have w: "j \<in># writers r - {#i#} \<longleftrightarrow> j \<in># writers r" if "inBusyRange j (locker r)" for j
    using False that by (auto simp flip: count_greater_zero_iff split: if_splits)
  show ?thesis
    using d False unfolding lock_inv_def by (auto simp: l w dest: in_diffD intro: order_trans [OF _ d(4)] split: if_splits)
qed

lemma Unlock_rebuilt_inv:
  assumes "lock_inv r" "i \<in> rebuilding r"
  shows "lock_inv (r\<lparr>locker := StripeLocker_Unlock i (locker r), rebuilding := rebuilding r - {i}\<rparr>)"
proof -
  note d = lock_invD [OF assms(1)]
  have "StripeLocker_Unlock i (locker r) = (locker r)\<lparr>busySet := busySet (locker r) - {i}\<rparr>" "i \<notin># writers r"
    using d(2,3) assms(2) by (auto simp: StripeLocker_Unlock_def locker_defs)
  then show ?thesis using d unfolding lock_inv_def by auto
qed

lemma filter_mset_all: "\<forall>x\<in>#M. P x \<Longrightarrow> filter_mset P M = M"
  by (induction M) auto

lemma TryBusyLock_inv:
  assumes "lock_inv r" "to < 2 ^ 32 - 1" "StripeLocker_TryBusyLock from to (locker r) = Inr (ret, l)"
  shows "lock_inv (r\<lparr>locker := l, rebuilding := (if ret then {from..to} else rebuilding r)\<rparr>)"
proof (cases ret)
  case True
  note d = lock_invD [OF assms(1)]
  have w: "rebuilding r = {}" "\<forall>i\<in>#writers r. \<not> inBusyRange i (locker r) \<and> i \<notin> {from..to}"
    and l: "l = (locker r)\<lparr>busySet := {from..to}, busyRange := Some \<lparr>lower = from, upper = to\<rparr>, isBusyRangeChanging := False\<rparr>"
    using assms(3) True unfolding TryBusyLock_eq [OF assms(1)] by (auto split: if_splits)
  have "workingSet (locker r) = writers r" unfolding d(5) using w(2) by (intro filter_mset_all) blast
  moreover have "filter_mset (\<lambda>i. \<not> inBusyRange i l) (writers r) = writers r"
    using w(2) by (intro filter_mset_all) (auto simp: l BusyRange_IsBusy_def)
  moreover have "i \<notin># writers r" "count (writers r) i = 0" if "inBusyRange i l" for i
    using that w(2) by (auto simp: l BusyRange_IsBusy_def simp flip: not_in_iff)
  ultimately show ?thesis
    using True assms(2) unfolding lock_inv_def by (auto simp: l BusyRange_IsBusy_def)
next
  case False
  then have "l = (locker r)\<lparr>isBusyRangeChanging := True\<rparr>"
    using assms(3) unfolding TryBusyLock_eq [OF assms(1)] by (auto split: if_splits)
  then show ?thesis using assms(1) False by (simp add: lock_inv_def)
qed

lemma ResetBusyLock_inv:
  assumes "lock_inv r" "StripeLocker_ResetBusyLock (locker r) = (ret, l)"
  shows "lock_inv (r\<lparr>locker := l\<rparr>)"
proof (cases "busySet (locker r) = {}")
  case True
  note d = lock_invD [OF assms(1)]
  have l: "l = (locker r)\<lparr>busyRange := None, isBusyRangeChanging := False\<rparr>"
    using assms(2) True busy_finite(2) [OF assms(1)] by (simp add: StripeLocker_ResetBusyLock_def)
  have "rebuilding r = {}" "\<forall>i\<in>#writers r. \<not> inBusyRange i (locker r)" using d(1) True by auto
  moreover from this have "workingSet (locker r) = writers r" unfolding d(5) by (intro filter_mset_all)
  ultimately show ?thesis using True unfolding lock_inv_def by (simp add: l)
next
  case False
  then have "l = locker r" using assms busy_finite(2) [OF assms(1)] by (simp add: StripeLocker_ResetBusyLock_def)
  then show ?thesis using assms(1) by simp
qed

lemma lockStep_inv:
  assumes "lockStep r r'" "lock_inv r"
  shows "lock_inv r'"
  using assms
  by (induction rule: lockStep.induct) (simp_all add: TryLock_inv Unlock_writer_inv TryBusyLock_inv Unlock_rebuilt_inv ResetBusyLock_inv)

lemma lockReach_inv:
  assumes "lockReach r"
  shows "lock_inv r"
  using assms
proof induction
  case init
  show ?case by (simp add: lock_inv_def StripeLocker_new_def inBusyRange_def)
qed (rule lockStep_inv)

text \<open>
  C30. Writes and the rebuild exclude each other: in every state a locker reaches, no stripe is locked by the rebuild
  and by a write, a stripe of the range under rebuild is locked by one write at most, and \<open>StripeLocker::TryBusyLock\<close>
  returns and gives the rebuild a range exactly when nobody holds a stripe of the old range or of the new one.
\<close>

theorem stripe_mutual_exclusion:
  assumes "lockReach r" "to < 2 ^ 32 - 1"
  shows "rebuilding r \<inter> set_mset (writers r) = {} \<and> (\<forall>i. inBusyRange i (locker r) \<longrightarrow> count (writers r) i \<le> 1) \<and>
    (\<exists>ret l. StripeLocker_TryBusyLock from to (locker r) = Inr (ret, l) \<and>
      (ret \<longleftrightarrow> rebuilding r = {} \<and> (\<forall>i\<in>#writers r. \<not> inBusyRange i (locker r) \<and> i \<notin> {from..to})))"
  using lock_invD(2,4) [OF lockReach_inv [OF assms(1)]] TryBusyLock_eq [OF lockReach_inv [OF assms(1)], of "from" to] by auto


text \<open>A write on stripe 7, and the rebuild of stripes 0 to 4 that wants to go on with 5 to 9.\<close>

definition sampleRun :: LockRun where
  "sampleRun = \<lparr>locker = \<lparr>workingSet = {#7#}, busySet = {0..4}, busyRange = Some \<lparr>lower = 0, upper = 4\<rparr>, isBusyRangeChanging = False\<rparr>,
     writers = {#7#}, rebuilding = {0..4}\<rparr>"

lemma sampleRun_reach: "lockReach sampleRun"
proof -
  let ?r0 = "\<lparr>locker = StripeLocker_new, writers = {#}, rebuilding = {}\<rparr>"
  let ?l1 = "\<lparr>workingSet = {#7#}, busySet = {}, busyRange = None, isBusyRangeChanging = False\<rparr>"
  have "StripeLocker_TryLock True 7 (locker ?r0) = (True, ?l1)"
    by (simp add: StripeLocker_TryLock_def StripeLocker_new_def inBusyRange_def locker_defs)
  from lockReach.step [OF lockReach.init lockStep.tryLock [OF this]]
  have r1: "lockReach \<lparr>locker = ?l1, writers = {#7#}, rebuilding = {}\<rparr>" by simp
  have "StripeLocker_TryBusyLock 0 4 (locker \<lparr>locker = ?l1, writers = {#7#}, rebuilding = {}\<rparr>) = Inr (True, locker sampleRun)"
    unfolding TryBusyLock_eq [OF lockReach_inv [OF r1]] by (simp add: sampleRun_def inBusyRange_def)
  from lockReach.step [OF r1 lockStep.tryBusyLock [OF _ this]] show ?thesis by (simp add: sampleRun_def)
qed

theorem stripe_mutual_exclusion_witness:
  "\<exists>l. StripeLocker_TryBusyLock 5 9 (locker sampleRun) = Inr (False, l)"
  using stripe_mutual_exclusion [OF sampleRun_reach, of 9 5] by (auto simp: sampleRun_def)

lemma refusedRun_reach: "lockReach (sampleRun\<lparr>locker := (locker sampleRun)\<lparr>isBusyRangeChanging := True\<rparr>\<rparr>)"
proof -
  have "StripeLocker_TryBusyLock 5 9 (locker sampleRun) = Inr (False, (locker sampleRun)\<lparr>isBusyRangeChanging := True\<rparr>)"
    unfolding TryBusyLock_eq [OF lockReach_inv [OF sampleRun_reach]] by (simp add: sampleRun_def)
  from lockReach.step [OF sampleRun_reach lockStep.tryBusyLock [OF _ this]] show ?thesis by simp
qed


section \<open>Locking a group of devices\<close>

text \<open>Every device has a live locker.\<close>

definition ioLocker_ok :: "IOLocker \<Rightarrow> bool" where
  "ioLocker_ok s \<longleftrightarrow> (\<forall>d a. lockers s d = Some a \<longrightarrow> lockerHeap s a \<noteq> None)"

text \<open>The lockers \<open>A\<close> after \<open>TryLock\<close>.\<close>

definition lockedIn :: "(nat \<Rightarrow> bool) \<Rightarrow> nat \<Rightarrow> nat set \<Rightarrow> IOLocker \<Rightarrow> IOLocker" where
  "lockedIn acquired val A s =
     s\<lparr>lockerHeap := (\<lambda>a. if a \<in> A then map_option (\<lambda>l. snd (StripeLocker_TryLock (acquired a) val l)) (lockerHeap s a)
                         else lockerHeap s a)\<rparr>"

definition grants :: "(nat \<Rightarrow> bool) \<Rightarrow> nat \<Rightarrow> IOLocker \<Rightarrow> nat \<Rightarrow> bool" where
  "grants acquired val s a \<longleftrightarrow> (\<exists>l. lockerHeap s a = Some l \<and> fst (StripeLocker_TryLock (acquired a) val l))"

lemma Unlock_TryLock:
  "StripeLocker_TryLock acquired i l = (True, l') \<Longrightarrow> StripeLocker_Unlock i l' = l"
  by (auto simp: StripeLocker_TryLock_def StripeLocker_Unlock_def locker_defs split: if_splits)

lemma TryLock_refused: "StripeLocker_TryLock acquired i l = (False, l') \<Longrightarrow> l' = l"
  by (auto simp: StripeLocker_TryLock_def locker_defs split: if_splits)

lemma lockedIn_step:
  assumes "lockerHeap s a = Some l" "a \<notin> A"
  shows "onLocker a (StripeLocker_TryLock (acquired a) val) (lockedIn acquired val A s) =
    Inr (grants acquired val s a, lockedIn acquired val (insert a A) s)"
proof -
  obtain ret l1 where t: "StripeLocker_TryLock (acquired a) val l = (ret, l1)" by fastforce
  have "(\<lambda>b. if b \<in> A then map_option (\<lambda>l. snd (StripeLocker_TryLock (acquired b) val l)) (lockerHeap s b) else lockerHeap s b)(a \<mapsto> l1)
    = (\<lambda>b. if b \<in> insert a A then map_option (\<lambda>l. snd (StripeLocker_TryLock (acquired b) val l)) (lockerHeap s b) else lockerHeap s b)"
    using assms t by (auto simp: fun_eq_iff)
  then show ?thesis using assms t by (simp add: onLocker_def lockedIn_def grants_def del: fun_upd_apply)
qed

lemma unlock_lockedIn:
  assumes "grants acquired val s a" "a \<notin> A"
  shows "onLocker a (\<lambda>l. ((), StripeLocker_Unlock val l)) (lockedIn acquired val (insert a A) s) = Inr ((), lockedIn acquired val A s)"
proof -
  obtain l l1 where t: "lockerHeap s a = Some l" "StripeLocker_TryLock (acquired a) val l = (True, l1)"
    using assms(1) by (auto simp: grants_def) (metis prod.collapse)
  have "(\<lambda>b. if b \<in> insert a A then map_option (\<lambda>l. snd (StripeLocker_TryLock (acquired b) val l)) (lockerHeap s b) else lockerHeap s b)(a \<mapsto> l)
    = (\<lambda>b. if b \<in> A then map_option (\<lambda>l. snd (StripeLocker_TryLock (acquired b) val l)) (lockerHeap s b) else lockerHeap s b)"
    using assms t by (auto simp: fun_eq_iff)
  then show ?thesis using t Unlock_TryLock [OF t(2)] by (simp add: onLocker_def lockedIn_def del: fun_upd_apply)
qed

lemma unlockAll_lockedIn:
  "distinct as \<Longrightarrow> \<forall>a\<in>set as. grants acquired val s a \<Longrightarrow> set as \<inter> A = {} \<Longrightarrow>
   unlockAll as val (lockedIn acquired val (set as \<union> A) s) = Inr (lockedIn acquired val A s)"
proof (induction as)
  case (Cons a as)
  have "unlockAll (a # as) val (lockedIn acquired val (set (a # as) \<union> A) s) =
      unlockAll as val (lockedIn acquired val (set as \<union> A) s)"
    using unlock_lockedIn [of acquired val s a "set as \<union> A"] Cons.prems by auto
  then show ?case using Cons by simp
qed simp

lemma TryLock_loop_eq:
  "distinct (locked @ as) \<Longrightarrow> \<forall>a\<in>set as. lockerHeap s a \<noteq> None \<Longrightarrow> \<forall>a\<in>set locked. grants acquired val s a \<Longrightarrow>
   TryLock_loop acquired locked as val (lockedIn acquired val (set locked) s) =
     Inr (if \<forall>a\<in>set as. grants acquired val s a then (True, lockedIn acquired val (set (locked @ as)) s)
          else (False, lockedIn acquired val {} s))"
proof (induction as arbitrary: locked)
  case (Cons a as)
  obtain l where l: "lockerHeap s a = Some l" using Cons.prems(2) by auto
  have a: "a \<notin> set locked" using Cons.prems(1) by auto
  note st = lockedIn_step [OF l a, of acquired val]
  show ?case
  proof (cases "grants acquired val s a")
    case True
    then show ?thesis using st Cons.IH [of "a # locked"] Cons.prems by (simp add: insert_commute)
  next
    case False
    obtain l' where "StripeLocker_TryLock (acquired a) val l = (False, l')"
      using False l by (cases "StripeLocker_TryLock (acquired a) val l") (auto simp: grants_def)
    then have "StripeLocker_TryLock (acquired a) val l = (False, l)" using TryLock_refused by blast
    then have "lockedIn acquired val (insert a (set locked)) s = lockedIn acquired val (set locked) s"
      using l a by (auto simp: lockedIn_def fun_eq_iff)
    then show ?thesis
      using st False unlockAll_lockedIn [of locked acquired val s "{}"] Cons.prems by simp
  qed
qed simp

lemma lockedIn_empty [simp]: "lockedIn acquired val {} s = s"
  by (simp add: lockedIn_def)

lemma lockers_lockedIn [simp]: "lockers (lockedIn acquired val A s) = lockers s"
  by (simp add: lockedIn_def)

lemma lockersByGroup_set:
  "distinct (lockersByGroup devs s)" "set (lockersByGroup devs s) = {a. \<exists>d\<in>set devs. lockers s d = Some a}"
  by (auto simp: lockersByGroup_def IOLocker_Find_def List.map_filter_def image_iff) force

text \<open>
  C32. A group is locked as a whole or not at all: \<open>IOLocker::TryLock\<close> of devices that have lockers returns; when it is refused
  by one of the lockers all are as before, and when it succeeds each locker holds the stripe once and
  \<open>IOLocker::Unlock\<close> of the same devices restores them all.
\<close>

theorem group_lock_all_or_nothing:
  assumes "ioLocker_ok s" "\<forall>d\<in>set devs. lockers s d \<noteq> None"
  shows "\<exists>ret s'. IOLocker_TryLock acquired devs val s = Inr (ret, s') \<and>
    (ret \<longleftrightarrow> (\<forall>d\<in>set devs. \<exists>a l. lockers s d = Some a \<and> lockerHeap s a = Some l \<and> fst (StripeLocker_TryLock (acquired a) val l))) \<and>
    (\<not> ret \<longrightarrow> s' = s) \<and> (ret \<longrightarrow> IOLocker_Unlock devs val s' = Inr s)"
proof -
  let ?as = "lockersByGroup devs s"
  have "\<forall>a\<in>set ?as. lockerHeap s a \<noteq> None" using assms(1) by (auto simp: lockersByGroup_set ioLocker_ok_def)
  from TryLock_loop_eq [OF _ this, of "[]" acquired val]
  have t: "IOLocker_TryLock acquired devs val s =
      Inr (if \<forall>a\<in>set ?as. grants acquired val s a then (True, lockedIn acquired val (set ?as) s) else (False, s))"
    using assms(2) lockersByGroup_set(1) by (auto simp: IOLocker_TryLock_def IOLocker_Find_def)
  have g: "(\<forall>a\<in>set ?as. grants acquired val s a) \<longleftrightarrow> (\<forall>d\<in>set devs. \<exists>a l. lockers s d = Some a \<and> lockerHeap s a = Some l \<and>
      fst (StripeLocker_TryLock (acquired a) val l))"
    using assms(2) by (fastforce simp: lockersByGroup_set grants_def)
  have "lockersByGroup devs (lockedIn acquired val (set ?as) s) = ?as" by (simp add: lockersByGroup_def IOLocker_Find_def)
  then have "IOLocker_Unlock devs val (lockedIn acquired val (set ?as) s) = Inr s" if "\<forall>a\<in>set ?as. grants acquired val s a"
    using unlockAll_lockedIn [OF lockersByGroup_set(1) that, of "{}"] by (simp add: IOLocker_Unlock_def)
  then show ?thesis unfolding t g [symmetric] by auto
qed

text \<open>
  C34. With a device that has no locker in the group, \<open>IOLocker::TryLock\<close> succeeds without locking the others, while
  \<open>IOLocker::Unlock\<close> of the same devices unlocks them: it takes away a lock of another write, and the rebuild can lock the stripe
  while that write is under way.
\<close>

theorem group_unlock_steals:
  assumes "lockers s d = None" "lockers s e = Some a" "lockerHeap s a = Some l" "busyRange l = None" "workingSet l = {#val#}"
    "busySet l = {}"
  shows "IOLocker_TryLock acquired [d, e] val s = Inr (True, s) \<and>
    (\<exists>s' s''. IOLocker_Unlock [d, e] val s = Inr s' \<and> IOLocker_TryBusyLock e val val s' = Inr (True, s'')) \<and>
    (\<exists>s''. IOLocker_TryBusyLock e val val s = Inr (False, s''))"
proof -
  have g: "lockersByGroup [d, e] s = [a]" using assms(1,2) by (simp add: lockersByGroup_def IOLocker_Find_def map_filter_simps)
  have u: "StripeLocker_Unlock val l = l\<lparr>workingSet := {#}\<rparr>"
    using assms(4,5) by (simp add: StripeLocker_Unlock_def inBusyRange_def locker_defs)
  have ok: "StripeLocker_TryBusyLock val val (l\<lparr>workingSet := {#}\<rparr>) = Inr (True, l\<lparr>workingSet := {#}, busySet := {val},
      busyRange := Some \<lparr>lower = val, upper = val\<rparr>, isBusyRangeChanging := False\<rparr>)"
    using assms(4,6) by (simp add: StripeLocker_TryBusyLock_def locker_defs)
  have no: "StripeLocker_TryBusyLock val val l = Inr (False, l\<lparr>isBusyRangeChanging := True\<rparr>)"
    using assms(5,6) by (simp add: StripeLocker_TryBusyLock_def locker_defs)
  show ?thesis
    using assms(1-3) u ok no by (simp add: IOLocker_TryLock_def IOLocker_Unlock_def g IOLocker_Find_def onLocker_def IOLocker_TryBusyLock_def)
qed

section \<open>Registration\<close>

text \<open>
  The mirrors are a symmetric pairing, mirrors have the same locker, others have different ones, and every locker is
  live.
\<close>

definition mirrored :: "LockerGroup \<Rightarrow> bool" where
  "mirrored g \<longleftrightarrow> (\<forall>x y. g x = Some y \<longrightarrow> g y = Some x \<and> x \<noteq> y)"

definition reg_inv :: "IOLocker \<Rightarrow> bool" where
  "reg_inv s \<longleftrightarrow> mirrored (pairGroup s) \<and> ioLocker_ok s \<and> (\<forall>x a. lockers s x = Some a \<longrightarrow> a < nextLocker s \<and> pairGroup s x \<noteq> None) \<and>
     (\<forall>x y. pairGroup s x = Some y \<longrightarrow> lockers s x = lockers s y) \<and>
     (\<forall>x y a. lockers s x = Some a \<and> lockers s y = Some a \<longrightarrow> x = y \<or> pairGroup s x = Some y)"

lemma AddDevice_loop_other:
  "\<forall>i\<in>set is. x \<noteq> d ! i \<and> x \<noteq> d ! (i + half) \<Longrightarrow> AddDevice_loop d half is g x = g x"
  by (induction "is" arbitrary: g) (auto simp: emplace_def split: option.splits)

lemma AddDevice_loop_pair:
  assumes "distinct d" "\<forall>i\<in>set is. i < half" "2 * half \<le> length d" "distinct is"
    "\<forall>i\<in>set is. g (d ! i) = None \<and> g (d ! (i + half)) = None" "i \<in> set is"
  shows "AddDevice_loop d half is g (d ! i) = Some (d ! (i + half)) \<and> AddDevice_loop d half is g (d ! (i + half)) = Some (d ! i)"
  using assms(2,4-6)
proof (induction "is" arbitrary: g)
  case (Cons j "is")
  let ?g = "emplace (d ! (j + half)) (d ! j) (emplace (d ! j) (d ! (j + half)) g)"
  have ne: "d ! j \<noteq> d ! (j + half)" using assms(1,3) Cons.prems(1) by (simp add: nth_eq_iff_index_eq)
  have g: "?g = g(d ! j \<mapsto> d ! (j + half), d ! (j + half) \<mapsto> d ! j)"
    using Cons.prems(3) ne by (auto simp: emplace_def fun_eq_iff)
  have sep: "d ! k \<noteq> d ! j \<and> d ! k \<noteq> d ! (j + half) \<and> d ! (k + half) \<noteq> d ! j \<and> d ! (k + half) \<noteq> d ! (j + half)"
    if "k \<in> set is" for k
    using that assms(1,3) Cons.prems(1,2) by (auto simp: nth_eq_iff_index_eq)
  show ?case
  proof (cases "i = j")
    case True
    have "AddDevice_loop d half is ?g x = ?g x" if "x = d ! j \<or> x = d ! (j + half)" for x
      using sep that by (intro AddDevice_loop_other) metis
    then show ?thesis using True g ne by simp
  next
    case False
    have "\<forall>k\<in>set is. ?g (d ! k) = None \<and> ?g (d ! (k + half)) = None" using sep Cons.prems(3) unfolding g by auto
    then show ?thesis using Cons.IH [of ?g] False Cons.prems by simp
  qed
qed simp

lemma AddDevice_eq:
  assumes "distinct d" "\<forall>x\<in>set d. g x = None"
  shows "i < length d div 2 \<Longrightarrow> LockerGroup_AddDevice d g (d ! i) = Some (d ! (i + length d div 2)) \<and>
      LockerGroup_AddDevice d g (d ! (i + length d div 2)) = Some (d ! i)"
    "\<forall>i<length d div 2. x \<noteq> d ! i \<and> x \<noteq> d ! (i + length d div 2) \<Longrightarrow> LockerGroup_AddDevice d g x = g x"
  using AddDevice_loop_pair [of d "[0..<length d div 2]" "length d div 2" g i] assms
    AddDevice_loop_other [of "[0..<length d div 2]" x d "length d div 2" g]
  by (auto simp: LockerGroup_AddDevice_def)

lemma half_notin:
  assumes "x \<notin> set d"
  shows "\<forall>i<length d div 2. x \<noteq> d ! i \<and> x \<noteq> d ! (i + length d div 2)"
proof (intro allI impI)
  fix i assume "i < length d div 2"
  then have "d ! i \<in> set d" "d ! (i + length d div 2) \<in> set d" by simp_all
  then show "x \<noteq> d ! i \<and> x \<noteq> d ! (i + length d div 2)" using assms by metis
qed

lemma AddDevice_mirrored:
  assumes "distinct d" "\<forall>x\<in>set d. g x = None" "mirrored g"
  shows "mirrored (LockerGroup_AddDevice d g)"
  unfolding mirrored_def
proof (intro allI impI)
  fix x y assume xy: "LockerGroup_AddDevice d g x = Some y"
  let ?h = "length d div 2"
  note A = AddDevice_eq [OF assms(1,2)]
  consider i where "i < ?h" "x = d ! i" | i where "i < ?h" "x = d ! (i + ?h)" | "\<forall>i<?h. x \<noteq> d ! i \<and> x \<noteq> d ! (i + ?h)" by blast
  then show "LockerGroup_AddDevice d g y = Some x \<and> x \<noteq> y"
  proof cases
    case (1 i)
    then have "y = d ! (i + ?h)" "LockerGroup_AddDevice d g y = Some x" using xy A(1) [OF 1(1)] unfolding 1(2) by auto
    then show ?thesis using 1 assms(1) by (simp add: nth_eq_iff_index_eq)
  next
    case (2 i)
    then have "y = d ! i" "LockerGroup_AddDevice d g y = Some x" using xy A(1) [OF 2(1)] unfolding 2(2) by auto
    then show ?thesis using 2 assms(1) by (simp add: nth_eq_iff_index_eq)
  next
    case 3
    have "g x = Some y" using xy unfolding A(2) [OF 3] .
    then have g: "g y = Some x" "x \<noteq> y" using assms(3) unfolding mirrored_def by blast+
    have "y \<notin> set d" using g(1) assms(2) by auto
    then have "LockerGroup_AddDevice d g y = g y" by (intro A(2) half_notin)
    then show ?thesis using g by simp
  qed
qed

lemma reg_invD:
  assumes "reg_inv s"
  shows "mirrored (pairGroup s)" "\<And>x a. lockers s x = Some a \<Longrightarrow> lockerHeap s a \<noteq> None \<and> a < nextLocker s \<and> pairGroup s x \<noteq> None"
    "\<And>x y. pairGroup s x = Some y \<Longrightarrow> lockers s x = lockers s y \<and> pairGroup s y = Some x \<and> x \<noteq> y"
    "\<And>x y a. lockers s x = Some a \<Longrightarrow> lockers s y = Some a \<Longrightarrow> x = y \<or> pairGroup s x = Some y"
  using assms unfolding reg_inv_def mirrored_def ioLocker_ok_def by blast+

lemma new_locker_inv:
  assumes "reg_inv s" "pairGroup s d = Some m" "lockers s d = None"
  shows "reg_inv (s\<lparr>lockerHeap := (lockerHeap s)(nextLocker s \<mapsto> StripeLocker_new), nextLocker := nextLocker s + 1,
    lockers := (lockers s)(d \<mapsto> nextLocker s, m \<mapsto> nextLocker s)\<rparr>)" (is "reg_inv ?t")
proof -
  note r = reg_invD [OF assms(1)]
  have m: "pairGroup s m = Some d" "lockers s m = None" "d \<noteq> m" using r(3) [OF assms(2)] assms(3) by auto
  have old: "lockers ?t x = Some a \<longleftrightarrow> (if x = d \<or> x = m then a = nextLocker s else lockers s x = Some a)" for x a by auto
  have other: "y \<noteq> d \<and> y \<noteq> m" if "pairGroup s x = Some y" "x \<noteq> d" "x \<noteq> m" for x y
    using r(3) [OF that(1)] that m(1) assms(2) by auto
  show ?thesis unfolding reg_inv_def
  proof (intro conjI allI impI)
    show "mirrored (pairGroup ?t)" using r(1) by simp
    show "ioLocker_ok ?t" unfolding ioLocker_ok_def old using r(2) by (auto split: if_splits)
    fix x y a
    show "a < nextLocker ?t" "pairGroup ?t x \<noteq> None" if "lockers ?t x = Some a"
      using that r(2) [of x a] m assms(2) unfolding old by (auto split: if_splits)
    show "lockers ?t x = lockers ?t y" if "pairGroup ?t x = Some y"
      using that r(3) [of x y] other [of x y] m assms(2) by auto
    show "x = y \<or> pairGroup ?t x = Some y" if "lockers ?t x = Some a \<and> lockers ?t y = Some a"
      using that r(4) [of x a y] r(2) [of x a] r(2) [of y a] m assms(2) unfolding old by (auto split: if_splits)
  qed
qed

lemma Register_dev_inv:
  assumes "reg_inv s"
  shows "reg_inv (Register_dev d s) \<and> pairGroup (Register_dev d s) = pairGroup s \<and>
    (\<forall>x a. lockers s x = Some a \<longrightarrow> lockers (Register_dev d s) x = Some a) \<and>
    (pairGroup s d \<noteq> None \<longrightarrow> lockers (Register_dev d s) d \<noteq> None)"
proof (cases "lockers s d = None \<and> pairGroup s d \<noteq> None")
  case True
  then obtain m where m: "pairGroup s d = Some m" by auto
  have dm: "lockers s m = None" "d \<noteq> m" using reg_invD(3) [OF assms m] True by auto
  have "Register_dev d s = s\<lparr>lockerHeap := (lockerHeap s)(nextLocker s \<mapsto> StripeLocker_new), nextLocker := nextLocker s + 1,
      lockers := (lockers s)(d \<mapsto> nextLocker s, m \<mapsto> nextLocker s)\<rparr>"
    using dm m True by (simp add: Register_dev_def IOLocker_Find_def LockerGroup_GetMirror_def emplace_def)
  then show ?thesis using new_locker_inv [OF assms m] True dm by auto
next
  case False
  then have "Register_dev d s = s" by (auto simp: Register_dev_def IOLocker_Find_def LockerGroup_GetMirror_def split: option.splits)
  then show ?thesis using False assms by auto
qed

lemma Register_fold_inv:
  "reg_inv s \<Longrightarrow> reg_inv (fold Register_dev ds s) \<and> pairGroup (fold Register_dev ds s) = pairGroup s \<and>
   (\<forall>x a. lockers s x = Some a \<longrightarrow> lockers (fold Register_dev ds s) x = Some a) \<and>
   (\<forall>x\<in>set ds. pairGroup s x \<noteq> None \<longrightarrow> lockers (fold Register_dev ds s) x \<noteq> None)"
proof (induction ds arbitrary: s)
  case (Cons d ds)
  note r = Register_dev_inv [OF Cons.prems, of d]
  then have "reg_inv (Register_dev d s)" by blast
  from Cons.IH [OF this] r show ?case by auto
qed simp

text \<open>
  C33. Mirrors share a locker: \<open>IOLocker::Register\<close> of new devices gives each device of the first half and its mirror in
  the second half one live locker, which no other device has, and keeps the lockers of the other devices.
\<close>

theorem mirrors_share_locker:
  assumes "reg_inv s" "distinct ds" "\<forall>x\<in>set ds. pairGroup s x = None" "i < length ds div 2"
  shows "\<exists>s' a. IOLocker_Register ds s = (True, s') \<and> reg_inv s' \<and> lockers s' (ds ! i) = Some a \<and>
    lockers s' (ds ! (i + length ds div 2)) = Some a \<and> lockerHeap s' a \<noteq> None \<and>
    (\<forall>x. lockers s' x = Some a \<longrightarrow> x = ds ! i \<or> x = ds ! (i + length ds div 2)) \<and>
    (\<forall>x b. lockers s x = Some b \<longrightarrow> lockers s' x = Some b)"
proof -
  let ?h = "length ds div 2" and ?s1 = "s\<lparr>pairGroup := LockerGroup_AddDevice ds (pairGroup s)\<rparr>"
  note A = AddDevice_eq [OF assms(2,3)]
  have old: "LockerGroup_AddDevice ds (pairGroup s) x = pairGroup s x" if "x \<notin> set ds" for x
    using that by (intro A(2) half_notin)
  have none: "lockers s x = None" if "x \<in> set ds" for x
    using that assms(3) reg_invD(2) [OF assms(1), of x] by (cases "lockers s x") auto
  have m: "mirrored (LockerGroup_AddDevice ds (pairGroup s))"
    using AddDevice_mirrored [OF assms(2,3)] assms(1) by (simp add: reg_inv_def)
  note r = reg_invD [OF assms(1)]
  have out: "x \<notin> set ds" if "lockers s x = Some a" for x a using that none by auto
  have "reg_inv ?s1" unfolding reg_inv_def
  proof (intro conjI allI impI)
    fix x y a
    show "mirrored (pairGroup ?s1)" "ioLocker_ok ?s1" using m assms(1) by (simp_all add: reg_inv_def ioLocker_ok_def)
    show "a < nextLocker ?s1" "pairGroup ?s1 x \<noteq> None" if "lockers ?s1 x = Some a"
      using that r(2) [of x a] old [OF out] by auto
    show "x = y \<or> pairGroup ?s1 x = Some y" if "lockers ?s1 x = Some a \<and> lockers ?s1 y = Some a"
      using that r(4) [of x a y] old [OF out, of x a] by auto
    show "lockers ?s1 x = lockers ?s1 y" if p: "pairGroup ?s1 x = Some y"
    proof (cases "x \<in> set ds \<or> y \<in> set ds")
      case True
      have p': "LockerGroup_AddDevice ds (pairGroup s) x = Some y" using p by simp
      then have q: "LockerGroup_AddDevice ds (pairGroup s) y = Some x" using m unfolding mirrored_def by blast
      have "x \<in> set ds" using True old [of x] p' r(3) [of x y] assms(3) by (metis option.distinct(1))
      moreover have "y \<in> set ds" using True old [of y] q r(3) [of y x] assms(3) by (metis option.distinct(1))
      ultimately show ?thesis using none by simp
    next
      case False
      then show ?thesis using p old [of x] r(3) [of x y] by simp
    qed
  qed
  from Register_fold_inv [OF this, of ds]
  have f: "reg_inv (fold Register_dev ds ?s1)" "pairGroup (fold Register_dev ds ?s1) = LockerGroup_AddDevice ds (pairGroup s)"
    "\<forall>x a. lockers s x = Some a \<longrightarrow> lockers (fold Register_dev ds ?s1) x = Some a"
    "\<forall>x\<in>set ds. LockerGroup_AddDevice ds (pairGroup s) x \<noteq> None \<longrightarrow> lockers (fold Register_dev ds ?s1) x \<noteq> None" by auto
  have "ds ! i \<in> set ds" using assms(4) by simp
  then obtain a where a: "lockers (fold Register_dev ds ?s1) (ds ! i) = Some a" using f(4) A(1) [OF assms(4)] by auto
  note r' = reg_invD [OF f(1)]
  show ?thesis
    using a f(1,3) A(1) [OF assms(4)] r'(2) [OF a] r'(3) [of "ds ! i"] r'(4) [OF a] by (auto simp: IOLocker_Register_def f(2))
qed

text \<open>Four devices in two pairs, and two of which only the second has a locker, with a write on stripe 7.\<close>

definition emptyIO :: IOLocker where
  "emptyIO = \<lparr>lockers = Map.empty, pairGroup = Map.empty, lockerHeap = Map.empty, nextLocker = 0\<rparr>"

definition pairIO :: IOLocker where
  "pairIO = \<lparr>lockers = [2 \<mapsto> 0], pairGroup = Map.empty,
     lockerHeap = [0 \<mapsto> \<lparr>workingSet = {#7#}, busySet = {}, busyRange = None, isBusyRangeChanging = False\<rparr>], nextLocker = 1\<rparr>"

theorem mirrors_share_locker_witness:
  "\<exists>s' a. IOLocker_Register [1, 2, 3, 4] emptyIO = (True, s') \<and> lockers s' 2 = Some a \<and> lockers s' 4 = Some a"
proof -
  have "reg_inv emptyIO" by (simp add: reg_inv_def emptyIO_def mirrored_def ioLocker_ok_def)
  then show ?thesis using mirrors_share_locker [of emptyIO "[1, 2, 3, 4]" 1] by (auto simp: emptyIO_def)
qed

theorem group_lock_all_or_nothing_witness:
  "\<exists>s'. IOLocker_TryLock (\<lambda>_. True) [2] 8 pairIO = Inr (True, s') \<and> IOLocker_Unlock [2] 8 s' = Inr pairIO"
proof -
  have "ioLocker_ok pairIO" by (auto simp: ioLocker_ok_def pairIO_def split: if_splits)
  moreover have "\<forall>d\<in>set [2]. lockers pairIO d \<noteq> None"
    "\<exists>a l. lockers pairIO 2 = Some a \<and> lockerHeap pairIO a = Some l \<and> fst (StripeLocker_TryLock True 8 l)"
    by (simp_all add: pairIO_def StripeLocker_TryLock_def inBusyRange_def locker_defs)
  ultimately show ?thesis using group_lock_all_or_nothing [of pairIO "[2]" "\<lambda>_. True" 8] by auto
qed

theorem group_unlock_steals_witness:
  "IOLocker_TryLock (\<lambda>_. True) [1, 2] 7 pairIO = Inr (True, pairIO) \<and> (\<exists>s'. IOLocker_TryBusyLock 2 7 7 pairIO = Inr (False, s'))"
  using group_unlock_steals [of pairIO 1 2 0 "\<lparr>workingSet = {#7#}, busySet = {}, busyRange = None, isBusyRangeChanging = False\<rparr>" 7]
  by (simp add: pairIO_def)

end
