(* ===== verification/StateControl.thy ===== *)
theory StateControl
  imports PosPrelude
begin

text \<open>
  The state of the system that an array contributes to (\<^verbatim>\<open>src/state\<close>): parts of the system add and remove contexts, each of
  which stands for a situation with a priority; the context of highest priority is the current one. Observers are told
  when it changes.

  A context has the address of its object, since the sources compare pointers. \<open>Invoke\<close> adds a context in another
  thread: the context waits in \<open>pending\<close> until the thread runs. The sort of the sources is taken to keep the order of
  equal elements, as that of short vectors does.
\<close>

section \<open>Contexts\<close>

datatype SituationEnum = DEFAULT | NORMAL | TRY_MOUNT | DEGRADED | TRY_UNMOUNT | JOURNAL_RECOVERY | REBUILDING | FAULT

datatype StateEnum = OFFLINE | STOP | NORMAL | BUSY | PAUSE

record StateContext =
  ctxAddr :: nat
  ctxOwner :: string
  situation :: SituationEnum

fun StateConverter_Convert :: "SituationEnum \<Rightarrow> StateEnum" where
  "StateConverter_Convert DEFAULT = OFFLINE"
| "StateConverter_Convert SituationEnum.NORMAL = StateEnum.NORMAL"
| "StateConverter_Convert TRY_MOUNT = PAUSE"
| "StateConverter_Convert DEGRADED = BUSY"
| "StateConverter_Convert TRY_UNMOUNT = PAUSE"
| "StateConverter_Convert JOURNAL_RECOVERY = PAUSE"
| "StateConverter_Convert REBUILDING = BUSY"
| "StateConverter_Convert FAULT = STOP"

fun StatePriority_GetPriority :: "SituationEnum \<Rightarrow> int" where
  "StatePriority_GetPriority DEFAULT = 0"
| "StatePriority_GetPriority SituationEnum.NORMAL = 1"
| "StatePriority_GetPriority TRY_MOUNT = 1"
| "StatePriority_GetPriority DEGRADED = 10"
| "StatePriority_GetPriority TRY_UNMOUNT = 20"
| "StatePriority_GetPriority REBUILDING = 20"
| "StatePriority_GetPriority JOURNAL_RECOVERY = 30"
| "StatePriority_GetPriority FAULT = 99"

definition StateContext_ToStateType :: "StateContext \<Rightarrow> StateEnum" where
  "StateContext_ToStateType c = StateConverter_Convert (situation c)"

definition StateContext_GetPriority :: "StateContext \<Rightarrow> int" where
  "StateContext_GetPriority c = StatePriority_GetPriority (situation c)"

section \<open>The list of contexts\<close>

definition defaultCtx :: StateContext where
  "defaultCtx = \<lparr>ctxAddr = 0, ctxOwner = ''StateManager'', situation = DEFAULT\<rparr>"

definition StateList_new :: "StateContext list" where
  "StateList_new = [defaultCtx]"

definition StateList_Exists :: "StateContext \<Rightarrow> StateContext list \<Rightarrow> bool" where
  "StateList_Exists ctx l \<longleftrightarrow> ctx \<in> set l"

definition StateList_ExistsState :: "StateEnum \<Rightarrow> StateContext list \<Rightarrow> bool" where
  "StateList_ExistsState s l \<longleftrightarrow> (\<exists>c\<in>set l. StateContext_ToStateType c = s)"

definition StateList_ExistsSituation :: "SituationEnum \<Rightarrow> StateContext list \<Rightarrow> bool" where
  "StateList_ExistsSituation s l \<longleftrightarrow> (\<exists>c\<in>set l. situation c = s)"

text \<open>The pair is the context before and after, which the list reports.\<close>

definition StateList_Add :: "StateContext \<Rightarrow> StateContext list \<Rightarrow> (StateContext \<times> StateContext) option \<times> StateContext list" where
  "StateList_Add ctx l =
     (if \<not> StateList_Exists ctx l
      then let l1 = sort_key (\<lambda>c. - StateContext_GetPriority c) (l @ [ctx]) in (Some (hd l, hd l1), l1)
      else (None, l))"

definition StateList_Remove ::
    "StateContext \<Rightarrow> StateContext list \<Rightarrow> ((StateContext \<times> StateContext) option \<times> StateContext list) result" where
  "StateList_Remove ctx l =
     (if ctx \<in> set l
      then let l1 = remove1 ctx l in if l1 = [] then Inl OutOfBounds else Inr (Some (hd l, hd l1), l1)
      else Inr (None, l))"

definition StateList_Current :: "StateContext list \<Rightarrow> StateContext result" where
  "StateList_Current l = (case l of [] \<Rightarrow> Inl OutOfBounds | c # _ \<Rightarrow> Inr c)"

section \<open>Observers\<close>

text \<open>The observers with their names, in the order of their addresses.\<close>

type_synonym observers = "(nat \<times> string) list"

definition StatePublisher_Add :: "nat \<Rightarrow> string \<Rightarrow> observers \<Rightarrow> observers" where
  "StatePublisher_Add ob name os = (if ob \<in> fst ` set os then os else insort_key fst (ob, name) os)"

definition StatePublisher_Remove :: "nat \<Rightarrow> observers \<Rightarrow> observers" where
  "StatePublisher_Remove ob os = filter (\<lambda>(o', _). o' \<noteq> ob) os"

text \<open>The observers that are told, in this order; the owner of the new context comes last.\<close>

fun Notify_loop :: "string \<Rightarrow> observers \<Rightarrow> nat option \<Rightarrow> nat list" where
  "Notify_loop nextOwner [] own = (case own of None \<Rightarrow> [] | Some ob \<Rightarrow> [ob])"
| "Notify_loop nextOwner ((ob, name) # os) own =
     (if nextOwner = name then Notify_loop nextOwner os (Some ob) else ob # Notify_loop nextOwner os own)"

definition StatePublisher_Notify :: "StateContext \<Rightarrow> observers \<Rightarrow> nat list" where
  "StatePublisher_Notify next os = Notify_loop (ctxOwner next) os None"

section \<open>Control\<close>

text \<open>\<open>notified\<close> holds the calls of the observers so far, with the contexts before and after.\<close>

record StateControl =
  contextList :: "StateContext list"
  observers :: observers
  pending :: "StateContext option"
  notified :: "(nat \<times> StateContext \<times> StateContext) list"

definition StateControl_new :: StateControl where
  "StateControl_new = \<lparr>contextList = StateList_new, observers = [], pending = None, notified = []\<rparr>"

definition StateControl_Subscribe :: "nat \<Rightarrow> string \<Rightarrow> StateControl \<Rightarrow> StateControl" where
  "StateControl_Subscribe ob name c = c\<lparr>observers := StatePublisher_Add ob name (observers c)\<rparr>"

definition StateControl_Unsubscribe :: "nat \<Rightarrow> StateControl \<Rightarrow> StateControl" where
  "StateControl_Unsubscribe ob c = c\<lparr>observers := StatePublisher_Remove ob (observers c)\<rparr>"

definition StateControl_GetState :: "StateControl \<Rightarrow> StateContext result" where
  "StateControl_GetState c = StateList_Current (contextList c)"

definition StateControl_Exists :: "SituationEnum \<Rightarrow> StateControl \<Rightarrow> bool" where
  "StateControl_Exists s c = StateList_ExistsSituation s (contextList c)"

definition StateControl_ListUpdated :: "StateContext \<Rightarrow> StateContext \<Rightarrow> StateControl \<Rightarrow> StateControl" where
  "StateControl_ListUpdated prev next c =
     (if prev \<noteq> next
      then c\<lparr>notified := notified c @ map (\<lambda>ob. (ob, prev, next)) (StatePublisher_Notify next (observers c))\<rparr>
      else c)"

text \<open>What the thread that \<open>Invoke\<close> starts does.\<close>

definition addContext :: "StateContext \<Rightarrow> StateControl \<Rightarrow> StateControl" where
  "addContext ctx c =
     (let (upd, l) = StateList_Add ctx (contextList c); c1 = c\<lparr>contextList := l\<rparr>
      in case upd of None \<Rightarrow> c1 | Some (prev, next) \<Rightarrow> StateControl_ListUpdated prev next c1)"

definition runPending :: "StateControl \<Rightarrow> StateControl" where
  "runPending c = (case pending c of None \<Rightarrow> c | Some ctx \<Rightarrow> addContext ctx (c\<lparr>pending := None\<rparr>))"

text \<open>The new thread is started, then the future of the last call is replaced, which waits for the thread of that call. In
  the usual order that thread runs first and the new one later; in the other order the new thread overtakes it.\<close>

definition StateControl_Invoke :: "StateContext \<Rightarrow> StateControl \<Rightarrow> StateControl" where
  "StateControl_Invoke ctx c = (runPending c)\<lparr>pending := Some ctx\<rparr>"

definition StateControl_InvokeOvertaking :: "StateContext \<Rightarrow> StateControl \<Rightarrow> StateControl" where
  "StateControl_InvokeOvertaking ctx c = runPending (addContext ctx c)"

definition StateControl_WaitOnInvokeFuture :: "StateControl \<Rightarrow> StateControl" where
  "StateControl_WaitOnInvokeFuture c = runPending c"

definition StateControl_Remove :: "StateContext \<Rightarrow> StateControl \<Rightarrow> StateControl result" where
  "StateControl_Remove ctx c =
     andThen (StateList_Remove ctx (contextList c)) (\<lambda>(upd, l).
       let c1 = c\<lparr>contextList := l\<rparr>
       in case upd of None \<Rightarrow> Inr c1 | Some (prev, next) \<Rightarrow> Inr (StateControl_ListUpdated prev next c1))"

section \<open>Controls of the arrays\<close>

text \<open>The controls by the name of the array, with addresses; an empty name stands for the only array there is.\<close>

record StateManager =
  stateMap :: "(string \<times> nat) list"
  nextControl :: nat

definition StateManager_Find :: "string \<Rightarrow> StateManager \<Rightarrow> nat option" where
  "StateManager_Find arrayName s =
     (if arrayName = [] \<and> length (stateMap s) = 1 then Some (snd (hd (stateMap s))) else map_of (stateMap s) arrayName)"

definition StateManager_CreateStateControl :: "string \<Rightarrow> StateManager \<Rightarrow> nat \<times> StateManager" where
  "StateManager_CreateStateControl arrayName s =
     (case StateManager_Find arrayName s of
        Some c \<Rightarrow> (c, s)
      | None \<Rightarrow> (nextControl s, s\<lparr>stateMap := (arrayName, nextControl s) # stateMap s, nextControl := nextControl s + 1\<rparr>))"

definition StateManager_GetStateControl :: "string \<Rightarrow> StateManager \<Rightarrow> nat option" where
  "StateManager_GetStateControl arrayName s = StateManager_Find arrayName s"

definition StateManager_RemoveStateControl :: "string \<Rightarrow> StateManager \<Rightarrow> StateManager" where
  "StateManager_RemoveStateControl arrayName s =
     (if arrayName = [] \<and> length (stateMap s) = 1 then s\<lparr>stateMap := []\<rparr>
      else s\<lparr>stateMap := filter (\<lambda>(n, _). n \<noteq> arrayName) (stateMap s)\<rparr>)"

lemma StateManager_create_get:
  assumes "StateManager_CreateStateControl arrayName s = (c, s')" "arrayName \<noteq> []"
  shows "StateManager_GetStateControl arrayName s' = Some c"
    "StateManager_GetStateControl arrayName (StateManager_RemoveStateControl arrayName s') = None"
  using assms by (auto simp: StateManager_CreateStateControl_def StateManager_GetStateControl_def StateManager_Find_def
      StateManager_RemoveStateControl_def map_of_eq_None_iff split: option.splits)

section \<open>The current context\<close>

text \<open>Contexts of users; the default context is never added or removed by them.\<close>

inductive ctlStep :: "StateControl \<Rightarrow> StateControl \<Rightarrow> bool" where
  invoke: "ctlStep c (StateControl_Invoke ctx c)"
| overtake: "ctlStep c (StateControl_InvokeOvertaking ctx c)"
| run: "ctlStep c (runPending c)"
| remove: "ctx \<noteq> defaultCtx \<Longrightarrow> StateControl_Remove ctx c = Inr c' \<Longrightarrow> ctlStep c c'"
| subscribe: "ctlStep c (StateControl_Subscribe ob name c)"
| unsubscribe: "ctlStep c (StateControl_Unsubscribe ob c)"

inductive ctlReach :: "StateControl \<Rightarrow> bool" where
  init: "ctlReach StateControl_new"
| step: "ctlReach c \<Longrightarrow> ctlStep c c' \<Longrightarrow> ctlReach c'"

definition ctl_inv :: "StateControl \<Rightarrow> bool" where
  "ctl_inv c \<longleftrightarrow> distinct (contextList c) \<and> defaultCtx \<in> set (contextList c) \<and>
     sorted (map (\<lambda>c. - StateContext_GetPriority c) (contextList c))"

lemma contextList_ListUpdated [simp]: "contextList (StateControl_ListUpdated prev next c) = contextList c"
  by (simp add: StateControl_ListUpdated_def)

lemma contextList_addContext: "contextList (addContext ctx c) = snd (StateList_Add ctx (contextList c))"
  by (auto simp: addContext_def Let_def split: option.splits prod.splits)

lemma contextList_runPending:
  "contextList (runPending c) = (case pending c of None \<Rightarrow> contextList c | Some ctx \<Rightarrow> snd (StateList_Add ctx (contextList c)))"
  by (simp add: runPending_def contextList_addContext split: option.splits)

lemma StateList_Add_inv:
  assumes "distinct l" "sorted (map (\<lambda>c. - StateContext_GetPriority c) l)"
  shows "distinct (snd (StateList_Add ctx l))" "sorted (map (\<lambda>c. - StateContext_GetPriority c) (snd (StateList_Add ctx l)))"
    "set (snd (StateList_Add ctx l)) = insert ctx (set l)"
  using assms by (auto simp: StateList_Add_def StateList_Exists_def Let_def)

lemma StateControl_Remove_list:
  assumes "StateControl_Remove ctx c = Inr c'"
  shows "contextList c' = remove1 ctx (contextList c)"
  using assms by (auto simp: StateControl_Remove_def StateList_Remove_def andThen_eq_Inr remove1_idem Let_def split: if_splits prod.splits option.splits)

lemma sorted_map_remove1: "sorted (map f xs) \<Longrightarrow> sorted (map f (remove1 x xs))"
  by (induction xs) (auto simp: notin_set_remove1 dest: subsetD [OF set_remove1_subset])

lemma ctlStep_inv:
  assumes "ctlStep c c'" "ctl_inv c"
  shows "ctl_inv c'"
  using assms
proof (induction rule: ctlStep.induct)
  case (invoke c ctx)
  then show ?case
    by (auto simp: ctl_inv_def StateControl_Invoke_def contextList_runPending StateList_Add_inv split: option.splits)
next
  case (overtake c ctx)
  then show ?case
    by (auto simp: ctl_inv_def StateControl_InvokeOvertaking_def contextList_runPending contextList_addContext StateList_Add_inv
        split: option.splits)
next
  case (run c)
  then show ?case by (auto simp: ctl_inv_def contextList_runPending StateList_Add_inv split: option.splits)
next
  case (remove ctx c c')
  then show ?case using StateControl_Remove_list [OF remove(2)]
    by (auto simp: ctl_inv_def distinct_remove1 sorted_map_remove1 in_set_remove1)
qed (simp_all add: ctl_inv_def StateControl_Subscribe_def StateControl_Unsubscribe_def)

lemma ctlReach_inv:
  assumes "ctlReach c"
  shows "ctl_inv c"
  using assms
proof induction
  case init
  show ?case by (simp add: ctl_inv_def StateControl_new_def StateList_new_def)
qed (rule ctlStep_inv)

text \<open>
  C35. The most urgent situation rules: in every state that adding and removing contexts leads to, \<open>StateControl::GetState\<close> returns a
  context of the list with the highest priority, so a fault in the list is always the current situation; removing
  any context but the default one succeeds and takes away just that context.
\<close>

theorem current_is_most_urgent:
  assumes "ctlReach c" "ctx \<noteq> defaultCtx"
  shows "\<exists>cur c'. StateControl_GetState c = Inr cur \<and> cur \<in> set (contextList c) \<and>
    (\<forall>x\<in>set (contextList c). StateContext_GetPriority x \<le> StateContext_GetPriority cur) \<and>
    (StateControl_Exists FAULT c \<longrightarrow> situation cur = FAULT) \<and>
    StateControl_Remove ctx c = Inr c' \<and> set (contextList c') = set (contextList c) - {ctx}"
proof -
  have inv: "ctl_inv c" by (rule ctlReach_inv [OF assms(1)])
  then obtain cur rest where l: "contextList c = cur # rest" by (cases "contextList c") (auto simp: ctl_inv_def)
  have max: "\<forall>x\<in>set (contextList c). StateContext_GetPriority x \<le> StateContext_GetPriority cur"
    using inv l by (auto simp: ctl_inv_def)
  have top: "StatePriority_GetPriority s = 99 \<longleftrightarrow> s = FAULT" "StatePriority_GetPriority s \<le> 99" for s by (cases s; simp)+
  have "situation cur = FAULT" if f: "StateControl_Exists FAULT c"
  proof -
    obtain x where "x \<in> set (contextList c)" "situation x = FAULT"
      using f by (auto simp: StateControl_Exists_def StateList_ExistsSituation_def)
    then have "99 \<le> StatePriority_GetPriority (situation cur)" using max by (fastforce simp: StateContext_GetPriority_def)
    then show ?thesis using top [of "situation cur"] by simp
  qed
  moreover have "defaultCtx \<in> set (remove1 ctx (contextList c))" using inv assms(2) by (simp add: ctl_inv_def in_set_remove1)
  then have "remove1 ctx (contextList c) \<noteq> []" by auto
  then obtain c' where r: "StateControl_Remove ctx c = Inr c'"
    by (fastforce simp: StateControl_Remove_def StateList_Remove_def andThen_eq_Inr Let_def)
  moreover have "set (contextList c') = set (contextList c) - {ctx}"
    using StateControl_Remove_list [OF r] inv by (simp add: ctl_inv_def set_remove1_eq)
  ultimately show ?thesis using l max by (auto simp: StateControl_GetState_def StateList_Current_def)
qed

text \<open>A degraded array on which a rebuild has started and the journal is replayed.\<close>

definition sampleCtx :: "SituationEnum \<Rightarrow> StateContext" where
  "sampleCtx s = \<lparr>ctxAddr = 1 + nat (StatePriority_GetPriority s), ctxOwner = ''Array'', situation = s\<rparr>"

definition sampleControl :: StateControl where
  "sampleControl = runPending (StateControl_Invoke (sampleCtx DEGRADED) (StateControl_Invoke (sampleCtx FAULT)
     (StateControl_Invoke (sampleCtx REBUILDING) StateControl_new)))"

lemma sampleControl_reach: "ctlReach sampleControl"
  unfolding sampleControl_def by (intro ctlReach.step [OF _ ctlStep.run] ctlReach.step [OF _ ctlStep.invoke] ctlReach.init)

theorem current_is_most_urgent_witness:
  "\<exists>cur. StateControl_GetState sampleControl = Inr cur \<and> situation cur = FAULT"
proof -
  have "sampleCtx DEGRADED \<noteq> defaultCtx" by (simp add: sampleCtx_def defaultCtx_def)
  moreover have "StateControl_Exists FAULT sampleControl"
    by (simp add: StateControl_Exists_def StateList_ExistsSituation_def sampleControl_def contextList_runPending StateControl_Invoke_def
        StateControl_new_def StateList_new_def StateList_Add_def StateList_Exists_def sampleCtx_def defaultCtx_def Let_def
        StateContext_GetPriority_def runPending_def addContext_def StateControl_ListUpdated_def StatePublisher_Notify_def)
  ultimately show ?thesis using current_is_most_urgent [OF sampleControl_reach] by blast
qed

end
