(* ===== verification/ArrayState.thy ===== *)
theory ArrayState
  imports StateControl Raid
begin

text \<open>
  The state machine of an array (\<^verbatim>\<open>src/array/state\<close>): the states of an array from its creation to its deletion, the tests that
  guard its operations, and the contexts it adds to the state of the system.

  The wait of \<open>SetRebuild\<close> for the system is the argument \<open>wait\<close>: whether the context of the rebuild has become the
  current one in time, and the state of the control then.
\<close>

section \<open>States\<close>

datatype ArrayStateEnum = NOT_EXIST | EXIST_NORMAL | EXIST_DEGRADED | BROKEN | TRY_MOUNT | TRY_UNMOUNT
  | NORMAL | DEGRADED | REBUILD

fun arrayRank :: "ArrayStateEnum \<Rightarrow> nat" where
  "arrayRank NOT_EXIST = 0"
| "arrayRank EXIST_NORMAL = 1"
| "arrayRank EXIST_DEGRADED = 2"
| "arrayRank BROKEN = 3"
| "arrayRank TRY_MOUNT = 4"
| "arrayRank TRY_UNMOUNT = 5"
| "arrayRank NORMAL = 6"
| "arrayRank DEGRADED = 7"
| "arrayRank REBUILD = 8"

definition degradedState :: StateContext where
  "degradedState = \<lparr>ctxAddr = 1, ctxOwner = ''ArrayState'', situation = SituationEnum.DEGRADED\<rparr>"

definition rebuildingState :: StateContext where
  "rebuildingState = \<lparr>ctxAddr = 2, ctxOwner = ''ArrayState'', situation = REBUILDING\<rparr>"

definition stopState :: StateContext where
  "stopState = \<lparr>ctxAddr = 3, ctxOwner = ''ArrayState'', situation = SituationEnum.FAULT\<rparr>"

text \<open>\<open>published\<close> holds the values given to telemetry.\<close>

record ArrayState =
  arrState :: ArrayStateEnum
  control :: StateControl
  publisherEnabled :: bool
  published :: "ArrayStateEnum list"

abbreviation (input) ARRAY_NEED_MOUNT :: int where
  "ARRAY_NEED_MOUNT \<equiv> 2523"

abbreviation (input) ARRAY_STATE_NOT_EXIST :: int where
  "ARRAY_STATE_NOT_EXIST \<equiv> 2503"

abbreviation (input) ARRAY_STATE_BROKEN :: int where
  "ARRAY_STATE_BROKEN \<equiv> 2553"

abbreviation (input) ARRAY_ALD_MOUNTED :: int where
  "ARRAY_ALD_MOUNTED \<equiv> 2586"

abbreviation (input) ARRAY_STATE_ONLINE :: int where
  "ARRAY_STATE_ONLINE \<equiv> 2500"

abbreviation (input) ARRAY_BROKEN_ERROR :: int where
  "ARRAY_BROKEN_ERROR \<equiv> 2517"

abbreviation (input) ARRAY_STATE_EXIST :: int where
  "ARRAY_STATE_EXIST \<equiv> 2502"

abbreviation (input) ARRAY_STATE_OFFLINE :: int where
  "ARRAY_STATE_OFFLINE \<equiv> 2501"

abbreviation (input) ARRAY_STATE_REBUILDING :: int where
  "ARRAY_STATE_REBUILDING \<equiv> 2556"

abbreviation (input) ARRAY_STATE_CHANGE_ERROR :: int where
  "ARRAY_STATE_CHANGE_ERROR \<equiv> 2558"

section \<open>Operations\<close>

definition ArrayState_new :: "StateControl \<Rightarrow> ArrayState" where
  "ArrayState_new ctl = \<lparr>arrState = NOT_EXIST, control = StateControl_Subscribe 0 ''ArrayState'' ctl,
     publisherEnabled = False, published = []\<rparr>"

definition ArrayState_PublishCurrentState :: "ArrayState \<Rightarrow> ArrayState" where
  "ArrayState_PublishCurrentState s = (if publisherEnabled s then s\<lparr>published := published s @ [arrState s]\<rparr> else s)"

definition ArrayState_EnableStatePublisher :: "ArrayState \<Rightarrow> ArrayState" where
  "ArrayState_EnableStatePublisher s = s\<lparr>publisherEnabled := True\<rparr>"

definition ArrayState_doSetState :: "ArrayStateEnum \<Rightarrow> ArrayState \<Rightarrow> ArrayState" where
  "ArrayState_doSetState newState s =
     ArrayState_PublishCurrentState
       (if arrState s \<noteq> newState
        then let s1 = (if newState = DEGRADED then s\<lparr>control := StateControl_Invoke degradedState (control s)\<rparr>
                       else if newState = REBUILD then s\<lparr>control := StateControl_Invoke rebuildingState (control s)\<rparr>
                       else if newState = BROKEN then s\<lparr>control := StateControl_Invoke stopState (control s)\<rparr>
                       else s)
             in s1\<lparr>arrState := newState\<rparr>
        else s)"

definition ArrayState_removeContext :: "StateContext \<Rightarrow> ArrayState \<Rightarrow> ArrayState result" where
  "ArrayState_removeContext ctx s = andThen (StateControl_Remove ctx (control s)) (\<lambda>c. Inr (s\<lparr>control := c\<rparr>))"

definition ArrayState_Exists :: "ArrayState \<Rightarrow> bool" where
  "ArrayState_Exists s \<longleftrightarrow> arrayRank (arrState s) > arrayRank NOT_EXIST"

definition ArrayState_IsMounted :: "ArrayState \<Rightarrow> bool" where
  "ArrayState_IsMounted s \<longleftrightarrow> arrayRank (arrState s) \<ge> arrayRank NORMAL"

definition ArrayState_IsBroken :: "ArrayState \<Rightarrow> bool" where
  "ArrayState_IsBroken s \<longleftrightarrow> arrState s = BROKEN"

definition ArrayState_IsRebuildable :: "ArrayState \<Rightarrow> bool" where
  "ArrayState_IsRebuildable s \<longleftrightarrow> arrState s = DEGRADED"

definition ArrayState_IsRecoverable :: "ArrayState \<Rightarrow> bool" where
  "ArrayState_IsRecoverable s = (case arrState s of EXIST_DEGRADED \<Rightarrow> True | DEGRADED \<Rightarrow> True | _ \<Rightarrow> False)"

definition ArrayState_CanAddSpare :: "ArrayState \<Rightarrow> int" where
  "ArrayState_CanAddSpare s = (if \<not> ArrayState_IsMounted s then ARRAY_NEED_MOUNT else 0)"

definition ArrayState_CanRemoveSpare :: "ArrayState \<Rightarrow> int" where
  "ArrayState_CanRemoveSpare s = (if \<not> ArrayState_IsMounted s then ARRAY_NEED_MOUNT else 0)"

definition ArrayState_IsMountable :: "ArrayState \<Rightarrow> int" where
  "ArrayState_IsMountable s =
     (case arrState s of
        NOT_EXIST \<Rightarrow> ARRAY_STATE_NOT_EXIST
      | BROKEN \<Rightarrow> ARRAY_STATE_BROKEN
      | EXIST_NORMAL \<Rightarrow> 0
      | EXIST_DEGRADED \<Rightarrow> 0
      | _ \<Rightarrow> ARRAY_ALD_MOUNTED)"

definition ArrayState_IsLoadable :: "ArrayState \<Rightarrow> int" where
  "ArrayState_IsLoadable s =
     (if ArrayState_IsMounted s then ARRAY_STATE_ONLINE else if arrState s = BROKEN then ARRAY_BROKEN_ERROR else 0)"

definition ArrayState_IsCreatable :: "ArrayState \<Rightarrow> int" where
  "ArrayState_IsCreatable s = (if ArrayState_Exists s then ARRAY_STATE_EXIST else 0)"

definition ArrayState_IsUnmountable :: "ArrayState \<Rightarrow> int" where
  "ArrayState_IsUnmountable s =
     (if \<not> ArrayState_IsMounted s then ARRAY_STATE_OFFLINE
      else if arrState s = REBUILD then ARRAY_STATE_REBUILDING else 0)"

definition ArrayState_IsDeletable :: "ArrayState \<Rightarrow> int" where
  "ArrayState_IsDeletable s =
     (if ArrayState_IsMounted s then ARRAY_STATE_ONLINE
      else if \<not> ArrayState_Exists s then ARRAY_STATE_NOT_EXIST else 0)"

definition ArrayState_SetLoad :: "RaidState \<Rightarrow> ArrayState \<Rightarrow> ArrayState" where
  "ArrayState_SetLoad rs s =
     ArrayState_doSetState
       (case rs of RaidState.NORMAL \<Rightarrow> EXIST_NORMAL | RaidState.DEGRADED \<Rightarrow> EXIST_DEGRADED | FAILURE \<Rightarrow> BROKEN) s"

definition ArrayState_SetCreate :: "ArrayState \<Rightarrow> ArrayState" where
  "ArrayState_SetCreate s = ArrayState_doSetState EXIST_NORMAL s"

definition ArrayState_SetMount :: "ArrayState \<Rightarrow> int \<times> ArrayState" where
  "ArrayState_SetMount s =
     (case arrState s of
        EXIST_NORMAL \<Rightarrow> (0, ArrayState_doSetState NORMAL s)
      | EXIST_DEGRADED \<Rightarrow> (0, ArrayState_doSetState DEGRADED s)
      | _ \<Rightarrow> (ARRAY_STATE_CHANGE_ERROR, s))"

definition ArrayState_SetUnmount :: "ArrayState \<Rightarrow> (int \<times> ArrayState) result" where
  "ArrayState_SetUnmount s =
     andThen (ArrayState_removeContext degradedState s) (\<lambda>s1.
       Inr (case arrState s1 of
              NORMAL \<Rightarrow> (0, ArrayState_doSetState EXIST_NORMAL s1)
            | DEGRADED \<Rightarrow> (0, ArrayState_doSetState EXIST_DEGRADED s1)
            | _ \<Rightarrow> (ARRAY_STATE_CHANGE_ERROR, s1)))"

definition ArrayState_RaidStateUpdated :: "RaidState \<Rightarrow> ArrayState \<Rightarrow> ArrayState" where
  "ArrayState_RaidStateUpdated rs s =
     (if rs = FAILURE then ArrayState_doSetState BROKEN s
      else if arrayRank (arrState s) < arrayRank NORMAL
           then ArrayState_doSetState (if rs = RaidState.NORMAL then EXIST_NORMAL else EXIST_DEGRADED) s
           else ArrayState_doSetState (if rs = RaidState.NORMAL then NORMAL else DEGRADED) s)"

definition ArrayState_SetDelete :: "ArrayState \<Rightarrow> ArrayState" where
  "ArrayState_SetDelete s = ArrayState_doSetState NOT_EXIST s"

definition ArrayState_SetDegraded :: "ArrayState \<Rightarrow> ArrayState" where
  "ArrayState_SetDegraded s = ArrayState_doSetState DEGRADED s"

definition ArrayState_SetRebuild :: "(StateControl \<Rightarrow> bool \<times> StateControl) \<Rightarrow> ArrayState \<Rightarrow> (bool \<times> ArrayState) result" where
  "ArrayState_SetRebuild wait s =
     (if \<not> ArrayState_IsRebuildable s then Inr (False, s)
      else let s1 = ArrayState_doSetState REBUILD s; (res, c) = wait (control s1); s2 = s1\<lparr>control := c\<rparr>
           in if \<not> res
              then andThen (ArrayState_removeContext rebuildingState s2) (\<lambda>s3. Inr (False, ArrayState_doSetState DEGRADED s3))
              else Inr (True, s2))"

definition ArrayState_SetRebuildDone :: "bool \<Rightarrow> ArrayState \<Rightarrow> ArrayState result" where
  "ArrayState_SetRebuildDone isSuccess s =
     andThen (ArrayState_removeContext rebuildingState s) (\<lambda>s1.
       if isSuccess \<and> arrState s1 = REBUILD
       then andThen (ArrayState_removeContext degradedState s1) (\<lambda>s2. Inr (ArrayState_doSetState NORMAL s2))
       else Inr s1)"

section \<open>The state after each operation\<close>

lemma arrState_PublishCurrentState [simp]: "arrState (ArrayState_PublishCurrentState s) = arrState s"
  by (simp add: ArrayState_PublishCurrentState_def)

lemma control_PublishCurrentState [simp]: "control (ArrayState_PublishCurrentState s) = control s"
  by (simp add: ArrayState_PublishCurrentState_def)

lemma arrState_doSetState [simp]: "arrState (ArrayState_doSetState newState s) = newState"
  by (simp add: ArrayState_doSetState_def Let_def)

lemma arrState_removeContext [simp]: "ArrayState_removeContext ctx s = Inr s' \<Longrightarrow> arrState s' = arrState s"
  by (auto simp: ArrayState_removeContext_def andThen_eq_Inr)

text \<open>Removing a context of an array always succeeds: the default context is left.\<close>

lemma removeContext_ok:
  assumes "ctl_inv (control s)" "ctx \<noteq> defaultCtx"
  shows "\<exists>s'. ArrayState_removeContext ctx s = Inr s' \<and> arrState s' = arrState s \<and> ctl_inv (control s')"
proof -
  have "defaultCtx \<in> set (remove1 ctx (contextList (control s)))" using assms by (simp add: ctl_inv_def in_set_remove1)
  then have "remove1 ctx (contextList (control s)) \<noteq> []" by auto
  then obtain c where c: "StateControl_Remove ctx (control s) = Inr c"
    by (fastforce simp: StateControl_Remove_def StateList_Remove_def andThen_eq_Inr Let_def)
  then have "ctl_inv c" using ctlStep_inv [OF ctlStep.remove [OF assms(2) c] assms(1)] by simp
  then show ?thesis using c by (simp add: ArrayState_removeContext_def)
qed

lemma own_contexts [simp]: "degradedState \<noteq> defaultCtx" "rebuildingState \<noteq> defaultCtx" "stopState \<noteq> defaultCtx"
  by (simp_all add: degradedState_def rebuildingState_def stopState_def defaultCtx_def)

lemma doSetState_ctl_inv [simp]: "ctl_inv (control s) \<Longrightarrow> ctl_inv (control (ArrayState_doSetState newState s))"
  by (simp add: ArrayState_doSetState_def Let_def ctlStep_inv [OF ctlStep.invoke])

lemma SetUnmount_ok:
  assumes "ctl_inv (control s)"
  shows "\<exists>ret s'. ArrayState_SetUnmount s = Inr (ret, s') \<and> ctl_inv (control s') \<and>
    arrState s' = (case arrState s of NORMAL \<Rightarrow> EXIST_NORMAL | DEGRADED \<Rightarrow> EXIST_DEGRADED | st \<Rightarrow> st)"
  using removeContext_ok [OF assms own_contexts(1)]
  by (auto simp: ArrayState_SetUnmount_def split: ArrayStateEnum.splits)

text \<open>A wait leaves a control that the others keep in order.\<close>

definition waits :: "(StateControl \<Rightarrow> bool \<times> StateControl) \<Rightarrow> bool" where
  "waits wait \<longleftrightarrow> (\<forall>c. ctl_inv c \<longrightarrow> ctl_inv (snd (wait c)))"

lemma SetRebuild_ok:
  assumes "ctl_inv (control s)" "waits wait"
  shows "\<exists>ret s'. ArrayState_SetRebuild wait s = Inr (ret, s') \<and> ctl_inv (control s') \<and>
    (if ret then arrState s = DEGRADED \<and> arrState s' = REBUILD else arrState s' = arrState s)"
proof (cases "ArrayState_IsRebuildable s")
  case True
  let ?s1 = "ArrayState_doSetState REBUILD s"
  obtain res c where w: "wait (control ?s1) = (res, c)" by fastforce
  have c: "ctl_inv c" using assms w unfolding waits_def by (metis doSetState_ctl_inv snd_conv)
  obtain s3 where "ArrayState_removeContext rebuildingState (?s1\<lparr>control := c\<rparr>) = Inr s3" "ctl_inv (control s3)"
    using removeContext_ok [of "?s1\<lparr>control := c\<rparr>" rebuildingState] c by auto
  then show ?thesis using True w c by (auto simp: ArrayState_SetRebuild_def ArrayState_IsRebuildable_def Let_def)
qed (use assms in \<open>auto simp: ArrayState_SetRebuild_def\<close>)

lemma SetRebuildDone_ok:
  assumes "ctl_inv (control s)"
  shows "\<exists>s'. ArrayState_SetRebuildDone ok s = Inr s' \<and> ctl_inv (control s') \<and>
    arrState s' = (if ok \<and> arrState s = REBUILD then NORMAL else arrState s)"
proof -
  obtain s1 where s1: "ArrayState_removeContext rebuildingState s = Inr s1" "arrState s1 = arrState s" "ctl_inv (control s1)"
    using removeContext_ok [OF assms own_contexts(2)] by blast
  obtain s2 where "ArrayState_removeContext degradedState s1 = Inr s2" "ctl_inv (control s2)"
    using removeContext_ok [OF s1(3) own_contexts(1)] by blast
  then show ?thesis using s1 by (auto simp: ArrayState_SetRebuildDone_def)
qed

text \<open>
  A wait that ends too early leaves the context of the rebuild behind: it is removed before the thread of \<open>Invoke\<close> adds
  it.
\<close>

lemma rebuild_context_left:
  assumes "arrState s = DEGRADED" "pending (control s) = None" "rebuildingState \<notin> set (contextList (control s))"
    "ArrayState_SetRebuild (\<lambda>c. (False, c)) s = Inr (ret, s')"
  shows "arrState s' = DEGRADED" "rebuildingState \<in> set (contextList (control s'))"
proof -
  let ?s1 = "ArrayState_doSetState REBUILD s"
  have c: "control ?s1 = (control s)\<lparr>pending := Some rebuildingState\<rparr>"
    using assms(1,2) by (simp add: ArrayState_doSetState_def StateControl_Invoke_def runPending_def)
  then have "StateControl_Remove rebuildingState (control ?s1) = Inr (control ?s1)"
    using assms(3) by (simp add: StateControl_Remove_def StateList_Remove_def)
  then have "ArrayState_removeContext rebuildingState ?s1 = Inr ?s1" by (simp add: ArrayState_removeContext_def)
  then have s': "s' = ArrayState_doSetState DEGRADED ?s1"
    using assms(1,4) by (simp add: ArrayState_SetRebuild_def ArrayState_IsRebuildable_def)
  then show "arrState s' = DEGRADED" by simp
  have "control s' = StateControl_Invoke degradedState (control ?s1)"
    unfolding s' by (subst ArrayState_doSetState_def) simp
  then have "contextList (control s') = snd (StateList_Add rebuildingState (contextList (control s)))"
    by (simp add: StateControl_Invoke_def contextList_runPending c)
  then show "rebuildingState \<in> set (contextList (control s'))"
    by (simp add: StateList_Add_def StateList_Exists_def Let_def)
qed

end
