(* ===== verification/ArrayDevices.thy ===== *)
theory ArrayDevices
  imports Raid
begin

text \<open>
  The devices of an array (\<^verbatim>\<open>src/array/device\<close>): the NVM device, the data devices and the spares, with their states, how they are
  chosen by name, stored in the metadata of the array and loaded again, and how a spare replaces a faulty device.

  Block devices are numbers, which stand for the shared pointers; \<open>ub\<close> gives their properties, \<open>byName\<close> and \<open>bySn\<close>
  are the lookups of the device manager of the system. A pointer to a device of the array is its position in its list.
  The class of a block device, which the array sets, is part of the state.
\<close>

section \<open>Devices\<close>

datatype DeviceType = SSD | NVRAM

datatype DeviceClass = SYSTEM | ARRAY

datatype ArrayDeviceType = NONE | NVM | DATA | SPARE

record UBlock =
  ubName :: string
  ubSN :: string
  ubType :: DeviceType
  ubSize :: nat
  ubAlive :: bool

record ArrayDevice =
  uBlock :: "nat option"
  adState :: ArrayDeviceState

record DeviceMeta =
  metaUid :: string
  metaState :: ArrayDeviceState

record 'a DeviceSet =
  nvmSet :: "'a list"
  dataSet :: "'a list"
  spareSet :: "'a list"

record ArrayDeviceList =
  nvmDevs :: "ArrayDevice list"
  dataDevs :: "ArrayDevice list"
  spareDevs :: "ArrayDevice list"
  devClass :: "nat \<Rightarrow> DeviceClass"

definition ArrayDevice_new :: "nat option \<Rightarrow> ArrayDeviceState \<Rightarrow> ArrayDevice" where
  "ArrayDevice_new u st = \<lparr>uBlock = u, adState = st\<rparr>"

definition ArrayDeviceList_new :: "(nat \<Rightarrow> DeviceClass) \<Rightarrow> ArrayDeviceList" where
  "ArrayDeviceList_new c = \<lparr>nvmDevs = [], dataDevs = [], spareDevs = [], devClass = c\<rparr>"

abbreviation (input) ARRAY_DEVICE_NOT_FOUND :: int where
  "ARRAY_DEVICE_NOT_FOUND \<equiv> 2504"

abbreviation (input) DEVICE_COUNT_ERROR :: int where
  "DEVICE_COUNT_ERROR \<equiv> 2505"

abbreviation (input) ARRAY_NVM_CAPACITY_ERROR :: int where
  "ARRAY_NVM_CAPACITY_ERROR \<equiv> 2506"

abbreviation (input) ARRAY_SSD_CAPACITY_ERROR :: int where
  "ARRAY_SSD_CAPACITY_ERROR \<equiv> 2507"

abbreviation (input) ARRAY_DEVICE_TYPE_ERROR :: int where
  "ARRAY_DEVICE_TYPE_ERROR \<equiv> 2518"

abbreviation (input) ARRAY_NO_REMAINING_SPARE :: int where
  "ARRAY_NO_REMAINING_SPARE \<equiv> 2521"

abbreviation (input) ARRAY_DEVICE_ADD_FAIL :: int where
  "ARRAY_DEVICE_ADD_FAIL \<equiv> 2532"

abbreviation (input) ARRAY_DEVICE_REMOVE_FAIL :: int where
  "ARRAY_DEVICE_REMOVE_FAIL \<equiv> 2533"

abbreviation (input) ARRAY_DEVICE_WRONG_NAME :: int where
  "ARRAY_DEVICE_WRONG_NAME \<equiv> 2536"

abbreviation (input) ARRAY_DEVICE_ALREADY_ADDED :: int where
  "ARRAY_DEVICE_ALREADY_ADDED \<equiv> 2537"

abbreviation (input) ARRAY_DEVICE_NVM_NOT_FOUND :: int where
  "ARRAY_DEVICE_NVM_NOT_FOUND \<equiv> 2538"

section \<open>The list of devices\<close>

definition hasName :: "(nat \<Rightarrow> UBlock) \<Rightarrow> string \<Rightarrow> ArrayDevice \<Rightarrow> bool" where
  "hasName ub name d = (case uBlock d of None \<Rightarrow> False | Some u \<Rightarrow> ubName (ub u) = name)"

definition ArrayDeviceList_FindNvm :: "(nat \<Rightarrow> UBlock) \<Rightarrow> string \<Rightarrow> ArrayDeviceList \<Rightarrow> bool" where
  "ArrayDeviceList_FindNvm ub name l \<longleftrightarrow> (\<exists>d\<in>set (nvmDevs l). hasName ub name d)"

definition ArrayDeviceList_FindData :: "(nat \<Rightarrow> UBlock) \<Rightarrow> string \<Rightarrow> ArrayDeviceList \<Rightarrow> bool" where
  "ArrayDeviceList_FindData ub name l \<longleftrightarrow> (\<exists>d\<in>set (dataDevs l). hasName ub name d)"

text \<open>The search among the spares uses their block devices without a test.\<close>

fun ArrayDeviceList_FindSpare :: "(nat \<Rightarrow> UBlock) \<Rightarrow> string \<Rightarrow> ArrayDevice list \<Rightarrow> bool result" where
  "ArrayDeviceList_FindSpare ub name [] = Inr False"
| "ArrayDeviceList_FindSpare ub name (d # ds) =
     (case uBlock d of
        None \<Rightarrow> Inl Exception
      | Some u \<Rightarrow> if ubName (ub u) = name then Inr True else ArrayDeviceList_FindSpare ub name ds)"

definition ArrayDeviceList_Exists :: "(nat \<Rightarrow> UBlock) \<Rightarrow> string \<Rightarrow> ArrayDeviceList \<Rightarrow> ArrayDeviceType result" where
  "ArrayDeviceList_Exists ub name l =
     (if ArrayDeviceList_FindNvm ub name l then Inr NVM
      else if ArrayDeviceList_FindData ub name l then Inr DATA
      else andThen (ArrayDeviceList_FindSpare ub name (spareDevs l)) (\<lambda>found. Inr (if found then SPARE else NONE)))"

definition SetClass :: "DeviceClass \<Rightarrow> nat \<Rightarrow> ArrayDeviceList \<Rightarrow> ArrayDeviceList" where
  "SetClass k u l = l\<lparr>devClass := (devClass l)(u := k)\<rparr>"

definition ArrayDeviceList_SetNvm :: "(nat \<Rightarrow> UBlock) \<Rightarrow> ArrayDevice \<Rightarrow> ArrayDeviceList \<Rightarrow> (int \<times> ArrayDeviceList) result" where
  "ArrayDeviceList_SetNvm ub nvm l =
     (if nvmDevs l \<noteq> [] then Inr (ARRAY_DEVICE_ADD_FAIL, l)
      else case uBlock nvm of
             None \<Rightarrow> Inr (ARRAY_DEVICE_ADD_FAIL, l)
           | Some u \<Rightarrow> andThen (ArrayDeviceList_Exists ub (ubName (ub u)) l) (\<lambda>t.
               if t \<noteq> NONE then Inr (ARRAY_DEVICE_ADD_FAIL, l)
               else let l1 = SetClass ARRAY u l in Inr (0, l1\<lparr>nvmDevs := nvmDevs l1 @ [nvm]\<rparr>)))"

definition ArrayDeviceList_AddData :: "(nat \<Rightarrow> UBlock) \<Rightarrow> ArrayDevice \<Rightarrow> ArrayDeviceList \<Rightarrow> (int \<times> ArrayDeviceList) result" where
  "ArrayDeviceList_AddData ub dev l =
     (case uBlock dev of
        None \<Rightarrow> Inr (0, l\<lparr>dataDevs := dataDevs l @ [dev]\<rparr>)
      | Some u \<Rightarrow> andThen (ArrayDeviceList_Exists ub (ubName (ub u)) l) (\<lambda>t.
          if t \<noteq> NONE then Inr (ARRAY_DEVICE_ADD_FAIL, l)
          else let l1 = SetClass ARRAY u l in Inr (0, l1\<lparr>dataDevs := dataDevs l1 @ [dev]\<rparr>)))"

definition ArrayDeviceList_AddSpare :: "(nat \<Rightarrow> UBlock) \<Rightarrow> ArrayDevice \<Rightarrow> ArrayDeviceList \<Rightarrow> (int \<times> ArrayDeviceList) result" where
  "ArrayDeviceList_AddSpare ub dev l =
     (case uBlock dev of
        None \<Rightarrow> Inl Exception
      | Some u \<Rightarrow> andThen (ArrayDeviceList_Exists ub (ubName (ub u)) l) (\<lambda>t.
          if t \<noteq> NONE then Inr (ARRAY_DEVICE_ADD_FAIL, l)
          else let l1 = SetClass ARRAY u l in Inr (0, l1\<lparr>spareDevs := spareDevs l1 @ [dev]\<rparr>)))"

definition ArrayDeviceList_RemoveSpare :: "nat \<Rightarrow> ArrayDeviceList \<Rightarrow> (int \<times> ArrayDeviceList) result" where
  "ArrayDeviceList_RemoveSpare target l =
     (if target < length (spareDevs l)
      then case uBlock (spareDevs l ! target) of
             None \<Rightarrow> Inl Exception
           | Some u \<Rightarrow> let l1 = SetClass SYSTEM u l
                       in Inr (0, l1\<lparr>spareDevs := take target (spareDevs l1) @ drop (Suc target) (spareDevs l1)\<rparr>)
      else Inr (ARRAY_DEVICE_REMOVE_FAIL, l))"

definition ArrayDeviceList_Clear :: "ArrayDeviceList \<Rightarrow> ArrayDeviceList" where
  "ArrayDeviceList_Clear l =
     (let l1 = fold (SetClass SYSTEM) (List.map_filter uBlock (nvmDevs l @ dataDevs l @ spareDevs l)) l
      in l1\<lparr>nvmDevs := [], dataDevs := [], spareDevs := []\<rparr>)"

definition ArrayDeviceList_SpareToData :: "nat \<Rightarrow> ArrayDeviceList \<Rightarrow> (int \<times> ArrayDeviceList) result" where
  "ArrayDeviceList_SpareToData target l =
     (if spareDevs l = [] then Inr (ARRAY_NO_REMAINING_SPARE, l)
      else case uBlock (last (spareDevs l)) of
             None \<Rightarrow> Inl Exception
           | Some u \<Rightarrow>
               if target < length (dataDevs l)
               then Inr (0, l\<lparr>dataDevs := (dataDevs l)[target := (dataDevs l ! target)\<lparr>uBlock := Some u\<rparr>],
                             spareDevs := butlast (spareDevs l)\<rparr>)
               else Inl OutOfBounds)"

definition ArrayDeviceList_ExportNames :: "(nat \<Rightarrow> UBlock) \<Rightarrow> ArrayDeviceList \<Rightarrow> string DeviceSet result" where
  "ArrayDeviceList_ExportNames ub l =
     (if \<exists>d\<in>set (nvmDevs l @ filter (\<lambda>d. adState d \<noteq> ArrayDeviceState.FAULT) (dataDevs l) @ spareDevs l). uBlock d = None
      then Inl Exception
      else let name = (\<lambda>d. ubName (ub (the (uBlock d))))
           in Inr \<lparr>nvmSet = map name (nvmDevs l),
                   dataSet = map (\<lambda>d. if adState d = ArrayDeviceState.FAULT then ''Faulty Device'' else name d) (dataDevs l),
                   spareSet = map name (spareDevs l)\<rparr>)"

section \<open>The manager\<close>

text \<open>The devices of one list of names, with the type they must have and the operation that adds them.\<close>

fun importNames ::
    "(string \<Rightarrow> nat option) \<Rightarrow> (nat \<Rightarrow> UBlock) \<Rightarrow> DeviceType \<Rightarrow> (ArrayDevice \<Rightarrow> ArrayDeviceList \<Rightarrow> (int \<times> ArrayDeviceList) result) \<Rightarrow>
     string list \<Rightarrow> ArrayDeviceList \<Rightarrow> (int \<times> ArrayDeviceList) result" where
  "importNames byName ub t add [] l = Inr (0, l)"
| "importNames byName ub t add (name # names) l =
     (case byName name of
        None \<Rightarrow> Inr (ARRAY_DEVICE_NOT_FOUND, l)
      | Some u \<Rightarrow>
          if ubType (ub u) \<noteq> t then Inr (ARRAY_DEVICE_TYPE_ERROR, l)
          else andThen (add (ArrayDevice_new (Some u) ArrayDeviceState.NORMAL) l) (\<lambda>(ret, l1).
            if ret \<noteq> 0 then Inr (ret, l1) else importNames byName ub t add names l1))"

fun CheckAlive :: "(nat \<Rightarrow> UBlock) \<Rightarrow> bool \<Rightarrow> ArrayDevice list \<Rightarrow> bool" where
  "CheckAlive ub nullOk [] = True"
| "CheckAlive ub nullOk (d # ds) =
     (case uBlock d of
        None \<Rightarrow> nullOk \<and> CheckAlive ub nullOk ds
      | Some u \<Rightarrow> ubAlive (ub u) \<and> CheckAlive ub nullOk ds)"

definition ArrayDeviceManager_CheckDevs :: "(nat \<Rightarrow> UBlock) \<Rightarrow> ArrayDeviceList \<Rightarrow> int" where
  "ArrayDeviceManager_CheckDevs ub l =
     (if CheckAlive ub True (nvmDevs l) \<and> CheckAlive ub True (dataDevs l) \<and> CheckAlive ub False (spareDevs l)
      then 0 else ARRAY_DEVICE_NOT_FOUND)"

definition ArrayDeviceManager_CheckActiveSsdsCount :: "ArrayDevice list \<Rightarrow> int" where
  "ArrayDeviceManager_CheckActiveSsdsCount ds =
     (if ds \<noteq> [] \<and> filter (\<lambda>d. adState d = ArrayDeviceState.NORMAL) ds \<noteq> [] then 0 else DEVICE_COUNT_ERROR)"

definition ArrayDeviceManager_ComputeMinNvmCapacity :: "nat \<Rightarrow> nat" where
  "ArrayDeviceManager_ComputeMinNvmCapacity logicalChunkCount =
     u64 (536870912 + logicalChunkCount * BLOCK_SIZE_BYTE * BLOCKS_PER_CHUNK * (256 + 256 + 1))"

definition ArrayDeviceManager_CheckNvmCapacity :: "(nat \<Rightarrow> UBlock) \<Rightarrow> ArrayDeviceList \<Rightarrow> int result" where
  "ArrayDeviceManager_CheckNvmCapacity ub l =
     (case nvmDevs l of
        [] \<Rightarrow> Inl Exception
      | nvm # _ \<Rightarrow> (case uBlock nvm of
            None \<Rightarrow> Inl Exception
          | Some u \<Rightarrow>
              let logicalChunkCount = u32 (length (dataDevs l) + 2 ^ 64 - 1)
              in Inr (if ubSize (ub u) < ArrayDeviceManager_ComputeMinNvmCapacity logicalChunkCount
                      then ARRAY_NVM_CAPACITY_ERROR else 0)))"

text \<open>The smallest device that is not faulty; an empty list has no first element to start from.\<close>

definition ArrayDeviceManager_GetBaseCapacity :: "(nat \<Rightarrow> UBlock) \<Rightarrow> ArrayDevice list \<Rightarrow> nat result" where
  "ArrayDeviceManager_GetBaseCapacity ub ds =
     (let devList = filter (\<lambda>d. adState d \<noteq> ArrayDeviceState.FAULT) ds
      in if devList = [] \<or> (\<exists>d\<in>set devList. uBlock d = None) then Inl Exception
         else Inr (Min (set (map (\<lambda>d. ubSize (ub (the (uBlock d)))) devList))))"

definition ArrayDeviceManager_CheckSsdsCapacity :: "(nat \<Rightarrow> UBlock) \<Rightarrow> ArrayDeviceList \<Rightarrow> int result" where
  "ArrayDeviceManager_CheckSsdsCapacity ub l =
     andThen (ArrayDeviceManager_GetBaseCapacity ub (dataDevs l)) (\<lambda>baseCapa.
       if baseCapa < 20 * 2 ^ 30 \<or> baseCapa > 32 * 2 ^ 40 then Inr ARRAY_SSD_CAPACITY_ERROR
       else if spareDevs l \<noteq> []
       then andThen (ArrayDeviceManager_GetBaseCapacity ub (spareDevs l)) (\<lambda>minSpareCapa.
              Inr (if minSpareCapa < baseCapa then ARRAY_SSD_CAPACITY_ERROR else 0))
       else Inr 0)"

definition ArrayDeviceManager_CheckConstraints :: "(nat \<Rightarrow> UBlock) \<Rightarrow> ArrayDeviceList \<Rightarrow> int result" where
  "ArrayDeviceManager_CheckConstraints ub l =
     (if ArrayDeviceManager_CheckDevs ub l \<noteq> 0 then Inr (ArrayDeviceManager_CheckDevs ub l)
      else if ArrayDeviceManager_CheckActiveSsdsCount (dataDevs l) \<noteq> 0
      then Inr (ArrayDeviceManager_CheckActiveSsdsCount (dataDevs l))
      else andThen (if nvmDevs l \<noteq> [] then ArrayDeviceManager_CheckNvmCapacity ub l else Inr 0) (\<lambda>ret.
        if ret \<noteq> 0 then Inr ret else ArrayDeviceManager_CheckSsdsCapacity ub l))"

definition ArrayDeviceManager_ImportByName ::
    "(string \<Rightarrow> nat option) \<Rightarrow> (nat \<Rightarrow> UBlock) \<Rightarrow> string DeviceSet \<Rightarrow> ArrayDeviceList \<Rightarrow> (int \<times> ArrayDeviceList) result" where
  "ArrayDeviceManager_ImportByName byName ub nameSet l =
     andThen (importNames byName ub NVRAM (ArrayDeviceList_SetNvm ub) (nvmSet nameSet) l) (\<lambda>(ret, l1).
       if ret \<noteq> 0 then Inr (ret, l1)
       else andThen (importNames byName ub SSD (ArrayDeviceList_AddData ub) (dataSet nameSet) l1) (\<lambda>(ret, l2).
         if ret \<noteq> 0 then Inr (ret, l2)
         else andThen (importNames byName ub SSD (ArrayDeviceList_AddSpare ub) (spareSet nameSet) l2) (\<lambda>(ret, l3).
           if ret \<noteq> 0 then Inr (ret, l3)
           else andThen (ArrayDeviceManager_CheckConstraints ub l3) (\<lambda>ret. Inr (ret, l3)))))"

text \<open>Loading from the metadata; the results of the list are not looked at.\<close>

fun importNvm :: "(string \<Rightarrow> nat option) \<Rightarrow> (nat \<Rightarrow> UBlock) \<Rightarrow> DeviceMeta list \<Rightarrow> ArrayDeviceList \<Rightarrow> (int \<times> ArrayDeviceList) result" where
  "importNvm bySn ub [] l = Inr (0, l)"
| "importNvm bySn ub (m # ms) l =
     (case bySn (metaUid m) of
        None \<Rightarrow> Inr (ARRAY_DEVICE_NVM_NOT_FOUND, l)
      | Some u \<Rightarrow> andThen (ArrayDeviceList_SetNvm ub (ArrayDevice_new (Some u) ArrayDeviceState.NORMAL) l) (\<lambda>(_, l1).
          importNvm bySn ub ms l1))"

definition dataFromMeta :: "(string \<Rightarrow> nat option) \<Rightarrow> DeviceMeta \<Rightarrow> ArrayDevice" where
  "dataFromMeta bySn m =
     (if metaState m = ArrayDeviceState.FAULT then ArrayDevice_new None ArrayDeviceState.FAULT
      else case bySn (metaUid m) of
             None \<Rightarrow> ArrayDevice_new None ArrayDeviceState.FAULT
           | Some u \<Rightarrow> ArrayDevice_new (Some u) (metaState m))"

fun importData :: "(string \<Rightarrow> nat option) \<Rightarrow> (nat \<Rightarrow> UBlock) \<Rightarrow> DeviceMeta list \<Rightarrow> ArrayDeviceList \<Rightarrow> ArrayDeviceList result" where
  "importData bySn ub [] l = Inr l"
| "importData bySn ub (m # ms) l =
     andThen (ArrayDeviceList_AddData ub (dataFromMeta bySn m) l) (\<lambda>(_, l1). importData bySn ub ms l1)"

fun importSpares :: "(string \<Rightarrow> nat option) \<Rightarrow> (nat \<Rightarrow> UBlock) \<Rightarrow> DeviceMeta list \<Rightarrow> ArrayDeviceList \<Rightarrow> ArrayDeviceList result" where
  "importSpares bySn ub [] l = Inr l"
| "importSpares bySn ub (m # ms) l =
     (case bySn (metaUid m) of
        None \<Rightarrow> importSpares bySn ub ms l
      | Some u \<Rightarrow> andThen (ArrayDeviceList_AddSpare ub (ArrayDevice_new (Some u) ArrayDeviceState.NORMAL) l) (\<lambda>(_, l1).
          importSpares bySn ub ms l1))"

definition ArrayDeviceManager_Import ::
    "(string \<Rightarrow> nat option) \<Rightarrow> (nat \<Rightarrow> UBlock) \<Rightarrow> DeviceMeta DeviceSet \<Rightarrow> ArrayDeviceList \<Rightarrow> (int \<times> ArrayDeviceList) result" where
  "ArrayDeviceManager_Import bySn ub metaSet l =
     andThen (importNvm bySn ub (nvmSet metaSet) l) (\<lambda>(ret, l1).
       if ret \<noteq> 0 then Inr (ret, l1)
       else andThen (importData bySn ub (dataSet metaSet) l1) (\<lambda>l2.
         let ret = ArrayDeviceManager_CheckActiveSsdsCount (dataDevs l2)
         in if ret \<noteq> 0 then Inr (ret, l2)
            else andThen (importSpares bySn ub (spareSet metaSet) l2) (\<lambda>l3. Inr (0, l3))))"

definition dataToMeta :: "(nat \<Rightarrow> UBlock) \<Rightarrow> ArrayDevice \<Rightarrow> DeviceMeta" where
  "dataToMeta ub d =
     (if adState d = ArrayDeviceState.FAULT then \<lparr>metaUid = [], metaState = ArrayDeviceState.FAULT\<rparr>
      else case uBlock d of
             Some u \<Rightarrow> \<lparr>metaUid = ubSN (ub u), metaState = adState d\<rparr>
           | None \<Rightarrow> \<lparr>metaUid = [], metaState = ArrayDeviceState.FAULT\<rparr>)"

definition ArrayDeviceManager_ExportToMeta :: "(nat \<Rightarrow> UBlock) \<Rightarrow> ArrayDeviceList \<Rightarrow> DeviceMeta DeviceSet result" where
  "ArrayDeviceManager_ExportToMeta ub l =
     (if \<exists>d\<in>set (take 1 (nvmDevs l) @ spareDevs l). uBlock d = None then Inl Exception
      else let toMeta = (\<lambda>d. \<lparr>metaUid = ubSN (ub (the (uBlock d))), metaState = adState d\<rparr>)
           in Inr \<lparr>nvmSet = map toMeta (take 1 (nvmDevs l)), dataSet = map (dataToMeta ub) (dataDevs l),
                   spareSet = map toMeta (spareDevs l)\<rparr>)"

definition ArrayDeviceManager_GetFaulty :: "ArrayDeviceList \<Rightarrow> nat option" where
  "ArrayDeviceManager_GetFaulty l = find (\<lambda>i. adState (dataDevs l ! i) = ArrayDeviceState.FAULT) [0..<length (dataDevs l)]"

definition ArrayDeviceManager_GetRebuilding :: "ArrayDeviceList \<Rightarrow> nat option" where
  "ArrayDeviceManager_GetRebuilding l = find (\<lambda>i. adState (dataDevs l ! i) = ArrayDeviceState.REBUILD) [0..<length (dataDevs l)]"

definition ArrayDeviceManager_GetDev :: "nat option \<Rightarrow> ArrayDeviceList \<Rightarrow> nat option \<times> ArrayDeviceType" where
  "ArrayDeviceManager_GetDev u l =
     (if u = None then (None, NONE)
      else case find (\<lambda>i. uBlock (nvmDevs l ! i) = u) [0..<length (nvmDevs l)] of
             Some i \<Rightarrow> (Some i, NVM)
           | None \<Rightarrow> (case find (\<lambda>i. uBlock (dataDevs l ! i) = u) [0..<length (dataDevs l)] of
               Some i \<Rightarrow> (Some i, DATA)
             | None \<Rightarrow> (case find (\<lambda>i. uBlock (spareDevs l ! i) = u) [0..<length (spareDevs l)] of
                 Some i \<Rightarrow> (Some i, SPARE)
               | None \<Rightarrow> (None, NONE))))"

definition ArrayDeviceManager_AddSpare ::
    "(string \<Rightarrow> nat option) \<Rightarrow> (nat \<Rightarrow> UBlock) \<Rightarrow> string \<Rightarrow> ArrayDeviceList \<Rightarrow> (int \<times> ArrayDeviceList) result" where
  "ArrayDeviceManager_AddSpare byName ub devName l =
     (case byName devName of
        None \<Rightarrow> Inr (ARRAY_DEVICE_WRONG_NAME, l)
      | Some u \<Rightarrow>
          if devClass l u \<noteq> SYSTEM then Inr (ARRAY_DEVICE_ALREADY_ADDED, l)
          else if \<not> ubAlive (ub u) then Inr (- 2, l)
          else andThen (ArrayDeviceManager_GetBaseCapacity ub (dataDevs l)) (\<lambda>baseCapa.
            if baseCapa > ubSize (ub u) then Inr (ARRAY_SSD_CAPACITY_ERROR, l)
            else andThen (ArrayDeviceList_AddSpare ub (ArrayDevice_new (Some u) ArrayDeviceState.NORMAL) l) (\<lambda>(_, l1).
              Inr (0, l1))))"

definition ArrayDeviceManager_RemoveSpare ::
    "(string \<Rightarrow> nat option) \<Rightarrow> string \<Rightarrow> ArrayDeviceList \<Rightarrow> (int \<times> ArrayDeviceList) result" where
  "ArrayDeviceManager_RemoveSpare byName devName l =
     (case ArrayDeviceManager_GetDev (byName devName) l of
        (Some dev, SPARE) \<Rightarrow> ArrayDeviceList_RemoveSpare dev l
      | _ \<Rightarrow> Inr (ARRAY_DEVICE_REMOVE_FAIL, l))"

definition ArrayDeviceManager_ReplaceWithSpare :: "nat \<Rightarrow> ArrayDeviceList \<Rightarrow> (int \<times> ArrayDeviceList) result" where
  "ArrayDeviceManager_ReplaceWithSpare target l = ArrayDeviceList_SpareToData target l"

section \<open>Well-formed lists\<close>

definition blocksOf :: "ArrayDevice list \<Rightarrow> nat list" where
  "blocksOf ds = List.map_filter uBlock ds"

definition devBlocks :: "ArrayDeviceList \<Rightarrow> nat list" where
  "devBlocks l = blocksOf (nvmDevs l) @ blocksOf (dataDevs l) @ blocksOf (spareDevs l)"

definition devs_wf :: "(nat \<Rightarrow> UBlock) \<Rightarrow> ArrayDeviceList \<Rightarrow> bool" where
  "devs_wf ub l \<longleftrightarrow>
     distinct (map (\<lambda>u. ubName (ub u)) (devBlocks l)) \<and> (\<forall>d\<in>set (spareDevs l). uBlock d \<noteq> None) \<and>
     (\<forall>u\<in>set (devBlocks l). devClass l u = ARRAY) \<and> length (nvmDevs l) \<le> 1"

lemma blocksOf_simps [simp]:
  "blocksOf [] = []"
  "blocksOf (d # ds) = (case uBlock d of None \<Rightarrow> blocksOf ds | Some u \<Rightarrow> u # blocksOf ds)"
  "blocksOf (xs @ ys) = blocksOf xs @ blocksOf ys"
  by (simp_all add: blocksOf_def List.map_filter_def split: option.splits)

lemma set_blocksOf: "u \<in> set (blocksOf ds) \<longleftrightarrow> (\<exists>d\<in>set ds. uBlock d = Some u)"
  by (induction ds) (auto split: option.splits)

lemma hasName_blocks: "(\<exists>d\<in>set ds. hasName ub n d) \<longleftrightarrow> n \<in> (\<lambda>u. ubName (ub u)) ` set (blocksOf ds)"
  by (induction ds) (auto simp: hasName_def split: option.splits)

lemma FindSpare_total:
  assumes "\<forall>d\<in>set ds. uBlock d \<noteq> None"
  shows "ArrayDeviceList_FindSpare ub n ds = Inr (n \<in> (\<lambda>u. ubName (ub u)) ` set (blocksOf ds))"
  using assms by (induction ds) auto

lemma Exists_total:
  assumes "devs_wf ub l"
  shows "\<exists>t. ArrayDeviceList_Exists ub n l = Inr t \<and> (t = NONE \<longleftrightarrow> n \<notin> (\<lambda>u. ubName (ub u)) ` set (devBlocks l))"
  using assms unfolding devs_wf_def ArrayDeviceList_Exists_def ArrayDeviceList_FindNvm_def ArrayDeviceList_FindData_def
  by (auto simp: hasName_blocks FindSpare_total devBlocks_def image_Un)

lemma ArrayDevice_new_sel [simp]: "uBlock (ArrayDevice_new u st) = u" "adState (ArrayDevice_new u st) = st"
  by (simp_all add: ArrayDevice_new_def)

lemma SetClass_sel [simp]:
  "nvmDevs (SetClass k u l) = nvmDevs l" "dataDevs (SetClass k u l) = dataDevs l" "spareDevs (SetClass k u l) = spareDevs l"
  "devClass (SetClass k u l) = (devClass l)(u := k)" "devBlocks (SetClass k u l) = devBlocks l"
  by (simp_all add: SetClass_def devBlocks_def)

text \<open>What the three operations that add a device promise the loop over the names.\<close>

locale device_adder =
  fixes ub :: "nat \<Rightarrow> UBlock"
    and add :: "ArrayDevice \<Rightarrow> ArrayDeviceList \<Rightarrow> (int \<times> ArrayDeviceList) result"
    and place :: "ArrayDeviceList \<Rightarrow> ArrayDevice list"
    and others :: "ArrayDeviceList \<Rightarrow> ArrayDevice list \<times> ArrayDevice list"
  assumes add_total: "devs_wf ub l \<Longrightarrow> \<exists>r l'. add (ArrayDevice_new (Some u) st) l = Inr (r, l')"
    and add_fails: "devs_wf ub l \<Longrightarrow> add (ArrayDevice_new (Some u) st) l = Inr (r, l') \<Longrightarrow> r \<noteq> 0 \<Longrightarrow> l' = l"
    and add_wf: "devs_wf ub l \<Longrightarrow> add (ArrayDevice_new (Some u) st) l = Inr (0, l') \<Longrightarrow> devs_wf ub l'"
    and add_place: "devs_wf ub l \<Longrightarrow> add (ArrayDevice_new (Some u) st) l = Inr (0, l') \<Longrightarrow>
          place l' = place l @ [ArrayDevice_new (Some u) st] \<and> others l' = others l"
begin

lemma importNames_total:
  assumes "devs_wf ub l"
  shows "\<exists>r l'. importNames byName ub t add names l = Inr (r, l') \<and> devs_wf ub l'"
  using assms
proof (induction names arbitrary: l)
  case (Cons n ns)
  show ?case
  proof (cases "\<exists>u. byName n = Some u \<and> ubType (ub u) = t")
    case True
    then obtain u where u: "byName n = Some u" "ubType (ub u) = t"
      by blast
    obtain r l1 where a: "add (ArrayDevice_new (Some u) ArrayDeviceState.NORMAL) l = Inr (r, l1)"
      using add_total [OF Cons.prems] by blast
    show ?thesis
      using u a Cons.IH [of l1] add_wf [OF Cons.prems, of u _ l1] add_fails [OF Cons.prems a] Cons.prems
      by (cases "r = 0") auto
  qed (use Cons.prems in \<open>auto split: option.splits\<close>)
qed simp

lemma importNames_places:
  assumes "devs_wf ub l" "importNames byName ub t add names l = Inr (0, l')"
  shows "place l' = place l @ map (\<lambda>n. ArrayDevice_new (byName n) ArrayDeviceState.NORMAL) names \<and> others l' = others l \<and>
         (\<forall>n\<in>set names. \<exists>u. byName n = Some u \<and> ubType (ub u) = t)"
  using assms
proof (induction names arbitrary: l)
  case (Cons n ns)
  obtain u r l1 where u: "byName n = Some u" "ubType (ub u) = t"
    and a: "add (ArrayDevice_new (Some u) ArrayDeviceState.NORMAL) l = Inr (r, l1)"
    using Cons.prems add_total [OF Cons.prems(1)] by (fastforce split: option.splits if_splits)
  have r: "r = 0" and rest: "importNames byName ub t add ns l1 = Inr (0, l')"
    using Cons.prems(2) u a by (auto split: if_splits)
  show ?case
    using Cons.IH [OF add_wf [OF Cons.prems(1) a [unfolded r]] rest] add_place [OF Cons.prems(1) a [unfolded r]] u by simp
qed simp

end

lemma SetClass_wf_append:
  assumes "devs_wf ub l" "ubName (ub u) \<notin> (\<lambda>u. ubName (ub u)) ` set (devBlocks l)"
  shows "devs_wf ub ((SetClass ARRAY u l)\<lparr>dataDevs := dataDevs l @ [ArrayDevice_new (Some u) st]\<rparr>)"
    and "devs_wf ub ((SetClass ARRAY u l)\<lparr>spareDevs := spareDevs l @ [ArrayDevice_new (Some u) st]\<rparr>)"
    and "nvmDevs l = [] \<Longrightarrow> devs_wf ub ((SetClass ARRAY u l)\<lparr>nvmDevs := [ArrayDevice_new (Some u) st]\<rparr>)"
  using assms by (auto simp: devs_wf_def devBlocks_def)

lemma AddData_cases:
  assumes "devs_wf ub l"
  shows "ArrayDeviceList_AddData ub (ArrayDevice_new (Some u) st) l =
         (if ubName (ub u) \<in> (\<lambda>u. ubName (ub u)) ` set (devBlocks l) then Inr (ARRAY_DEVICE_ADD_FAIL, l)
          else Inr (0, (SetClass ARRAY u l)\<lparr>dataDevs := dataDevs l @ [ArrayDevice_new (Some u) st]\<rparr>))"
  using Exists_total [OF assms, of "ubName (ub u)"] by (auto simp: ArrayDeviceList_AddData_def Let_def)

lemma AddSpare_cases:
  assumes "devs_wf ub l"
  shows "ArrayDeviceList_AddSpare ub (ArrayDevice_new (Some u) st) l =
         (if ubName (ub u) \<in> (\<lambda>u. ubName (ub u)) ` set (devBlocks l) then Inr (ARRAY_DEVICE_ADD_FAIL, l)
          else Inr (0, (SetClass ARRAY u l)\<lparr>spareDevs := spareDevs l @ [ArrayDevice_new (Some u) st]\<rparr>))"
  using Exists_total [OF assms, of "ubName (ub u)"] by (auto simp: ArrayDeviceList_AddSpare_def Let_def)

lemma SetNvm_cases:
  assumes "devs_wf ub l"
  shows "ArrayDeviceList_SetNvm ub (ArrayDevice_new (Some u) st) l =
         (if nvmDevs l \<noteq> [] \<or> ubName (ub u) \<in> (\<lambda>u. ubName (ub u)) ` set (devBlocks l) then Inr (ARRAY_DEVICE_ADD_FAIL, l)
          else Inr (0, (SetClass ARRAY u l)\<lparr>nvmDevs := [ArrayDevice_new (Some u) st]\<rparr>))"
  using Exists_total [OF assms, of "ubName (ub u)"] by (auto simp: ArrayDeviceList_SetNvm_def Let_def)

interpretation add_data: device_adder ub "ArrayDeviceList_AddData ub" dataDevs "\<lambda>l. (nvmDevs l, spareDevs l)" for ub
  by unfold_locales (auto simp: AddData_cases SetClass_wf_append split: if_splits)

interpretation add_spare: device_adder ub "ArrayDeviceList_AddSpare ub" spareDevs "\<lambda>l. (nvmDevs l, dataDevs l)" for ub
  by unfold_locales (auto simp: AddSpare_cases SetClass_wf_append split: if_splits)

interpretation set_nvm: device_adder ub "ArrayDeviceList_SetNvm ub" nvmDevs "\<lambda>l. (dataDevs l, spareDevs l)" for ub
  by unfold_locales (auto simp: SetNvm_cases SetClass_wf_append split: if_splits)

section \<open>Creating an array from names\<close>

lemma new_wf [simp]: "devs_wf ub (ArrayDeviceList_new c)"
  by (simp add: devs_wf_def devBlocks_def ArrayDeviceList_new_def)

lemma new_sel [simp]:
  "nvmDevs (ArrayDeviceList_new c) = []" "dataDevs (ArrayDeviceList_new c) = []" "spareDevs (ArrayDeviceList_new c) = []"
  by (simp_all add: ArrayDeviceList_new_def)

lemma CheckAlive_blocks:
  "CheckAlive ub b ds \<longleftrightarrow> (\<forall>u\<in>set (blocksOf ds). ubAlive (ub u)) \<and> (b \<or> (\<forall>d\<in>set ds. uBlock d \<noteq> None))"
  by (induction ub b ds rule: CheckAlive.induct) (auto split: option.splits)

abbreviation (input) newDevs :: "(string \<Rightarrow> nat option) \<Rightarrow> string list \<Rightarrow> ArrayDevice list" where
  "newDevs byName names \<equiv> map (\<lambda>n. ArrayDevice_new (byName n) ArrayDeviceState.NORMAL) names"

lemma newDevs_blocks:
  assumes "\<forall>n\<in>set names. byName n \<noteq> None"
  shows "blocksOf (newDevs byName names) = map (the \<circ> byName) names"
  using assms by (induction names) auto

lemma base_capacity_new:
  assumes "\<forall>n\<in>set names. byName n \<noteq> None" "names \<noteq> []"
  shows "ArrayDeviceManager_GetBaseCapacity ub (newDevs byName names) = Inr (Min ((\<lambda>n. ubSize (ub (the (byName n)))) ` set names))"
proof -
  have f: "filter (\<lambda>d. adState d \<noteq> ArrayDeviceState.FAULT) (newDevs byName names) = newDevs byName names"
    by (simp add: filter_id_conv)
  show ?thesis
    unfolding ArrayDeviceManager_GetBaseCapacity_def Let_def f using assms by (auto simp: image_image)
qed

text \<open>What the three loops leave when they all succeed.\<close>

lemma import_loops:
  assumes "importNames byName ub NVRAM (ArrayDeviceList_SetNvm ub) (nvmSet names) (ArrayDeviceList_new c) = Inr (0, l1)"
    and "importNames byName ub SSD (ArrayDeviceList_AddData ub) (dataSet names) l1 = Inr (0, l2)"
    and "importNames byName ub SSD (ArrayDeviceList_AddSpare ub) (spareSet names) l2 = Inr (0, l3)"
  shows "devs_wf ub l3 \<and> nvmDevs l3 = newDevs byName (nvmSet names) \<and> dataDevs l3 = newDevs byName (dataSet names) \<and>
         spareDevs l3 = newDevs byName (spareSet names) \<and>
         (\<forall>n\<in>set (nvmSet names). \<exists>u. byName n = Some u \<and> ubType (ub u) = NVRAM) \<and>
         (\<forall>n\<in>set (dataSet names @ spareSet names). \<exists>u. byName n = Some u \<and> ubType (ub u) = SSD)"
proof -
  have w1: "devs_wf ub l1"
    using set_nvm.importNames_total [OF new_wf, of byName ub NVRAM "nvmSet names" c] assms(1) by simp
  have w2: "devs_wf ub l2"
    using add_data.importNames_total [OF w1, of byName SSD "dataSet names"] assms(2) by simp
  have w3: "devs_wf ub l3"
    using add_spare.importNames_total [OF w2, of byName SSD "spareSet names"] assms(3) by simp
  show ?thesis
    using w3 set_nvm.importNames_places [OF new_wf assms(1)] add_data.importNames_places [OF w1 assms(2)]
      add_spare.importNames_places [OF w2 assms(3)] by auto
qed

definition sizeOf :: "(nat \<Rightarrow> UBlock) \<Rightarrow> (string \<Rightarrow> nat option) \<Rightarrow> string \<Rightarrow> nat" where
  "sizeOf ub byName n = ubSize (ub (the (byName n)))"

definition sizes_ok :: "(string \<Rightarrow> nat) \<Rightarrow> string DeviceSet \<Rightarrow> bool" where
  "sizes_ok sz names \<longleftrightarrow>
     dataSet names \<noteq> [] \<and>
     (\<exists>b\<in>sz ` set (dataSet names). 20 * 2 ^ 30 \<le> b \<and> b \<le> 32 * 2 ^ 40 \<and> (\<forall>n\<in>set (dataSet names @ spareSet names). b \<le> sz n)) \<and>
     (\<forall>n\<in>set (nvmSet names). 2 ^ 29 + (length (dataSet names) - 1) * 2 ^ 18 * 513 \<le> sz n)"

lemma ssds_capacity_new:
  assumes "dataDevs l = newDevs byName dat" "spareDevs l = newDevs byName spare"
    and ex: "\<forall>n\<in>set (dat @ spare). byName n \<noteq> None" and "dat \<noteq> []"
  shows "\<exists>r. ArrayDeviceManager_CheckSsdsCapacity ub l = Inr r \<and>
         (r = 0 \<longrightarrow> (\<exists>b\<in>sizeOf ub byName ` set dat. 20 * 2 ^ 30 \<le> b \<and> b \<le> 32 * 2 ^ 40 \<and>
                        (\<forall>n\<in>set (dat @ spare). b \<le> sizeOf ub byName n)))"
proof -
  define b where "b = Min (sizeOf ub byName ` set dat)"
  define c where "c = Min (sizeOf ub byName ` set spare)"
  have d: "ArrayDeviceManager_GetBaseCapacity ub (dataDevs l) = Inr b"
    using base_capacity_new [of dat byName ub] assms by (simp add: sizeOf_def b_def)
  have s: "ArrayDeviceManager_GetBaseCapacity ub (spareDevs l) = Inr c" if "spare \<noteq> []"
    using base_capacity_new [of spare byName ub] assms that by (simp add: sizeOf_def c_def)
  have b: "b \<in> sizeOf ub byName ` set dat" "\<forall>n\<in>set dat. b \<le> sizeOf ub byName n"
    using \<open>dat \<noteq> []\<close> unfolding b_def by (auto intro!: Min_in)
  have c: "\<forall>n\<in>set spare. c \<le> sizeOf ub byName n"
    unfolding c_def by auto
  have e: "spareDevs l = [] \<longleftrightarrow> spare = []"
    using assms(2) by simp
  show ?thesis
  proof (cases "20 * 2 ^ 30 \<le> b \<and> b \<le> 32 * 2 ^ 40 \<and> (\<forall>n\<in>set (dat @ spare). b \<le> sizeOf ub byName n)")
    case True
    then have "\<exists>b\<in>sizeOf ub byName ` set dat. 20 * 2 ^ 30 \<le> b \<and> b \<le> 32 * 2 ^ 40 \<and> (\<forall>n\<in>set (dat @ spare). b \<le> sizeOf ub byName n)"
      using b(1) by blast
    moreover have "\<exists>r. ArrayDeviceManager_CheckSsdsCapacity ub l = Inr r"
      using s e by (cases "spare = []") (simp_all add: ArrayDeviceManager_CheckSsdsCapacity_def d)
    ultimately show ?thesis
      by blast
  next
    case False
    have "ArrayDeviceManager_CheckSsdsCapacity ub l = Inr ARRAY_SSD_CAPACITY_ERROR"
    proof (cases "20 * 2 ^ 30 \<le> b \<and> b \<le> 32 * 2 ^ 40")
      case range: True
      then obtain n where n: "n \<in> set spare" "sizeOf ub byName n < b"
        using False b(2) by force
      then have "spare \<noteq> []" "c < b"
        using c by (auto dest: bspec)
      then show ?thesis
        using range s e by (simp add: ArrayDeviceManager_CheckSsdsCapacity_def d not_less)
    qed (auto simp: ArrayDeviceManager_CheckSsdsCapacity_def d)
    then show ?thesis
      by simp
  qed
qed

lemma nvm_capacity_new:
  assumes "nvmDevs l = newDevs byName nvm" "\<forall>n\<in>set nvm. byName n \<noteq> None" "length nvm = 1"
    and "dataDevs l = newDevs byName dat" "dat \<noteq> []" "length dat \<le> 2 ^ 32"
  shows "\<exists>r. ArrayDeviceManager_CheckNvmCapacity ub l = Inr r \<and>
         (r = 0 \<longrightarrow> (\<forall>n\<in>set nvm. 2 ^ 29 + (length dat - 1) * 2 ^ 18 * 513 \<le> sizeOf ub byName n))"
proof -
  obtain n u where n: "nvm = [n]" "byName n = Some u"
    using assms(2,3) by (cases nvm) auto
  have "u32 (length (dataDevs l) + 2 ^ 64 - 1) = length dat - 1"
  proof -
    have "length (dataDevs l) + 2 ^ 64 - 1 = (length dat - 1) + 2 ^ 32 * 2 ^ 32"
      using assms(4,5) by (cases dat) simp_all
    moreover have "length dat - 1 < 2 ^ 32"
      using assms(5,6) by (cases dat) simp_all
    ultimately show ?thesis
      unfolding u32_def by (metis mod_mult_self2 mod_less)
  qed
  moreover have "ArrayDeviceManager_ComputeMinNvmCapacity (length dat - 1) = 2 ^ 29 + (length dat - 1) * 2 ^ 18 * 513"
    using assms(6) by (simp add: ArrayDeviceManager_ComputeMinNvmCapacity_def u64_def)
  ultimately show ?thesis
    using n assms(1) by (auto simp: ArrayDeviceManager_CheckNvmCapacity_def sizeOf_def)
qed

lemma constraints_total:
  assumes w: "devs_wf ub l" and n: "nvmDevs l = newDevs byName (nvmSet names)" and d: "dataDevs l = newDevs byName (dataSet names)"
    and s: "spareDevs l = newDevs byName (spareSet names)"
    and ex: "\<forall>n\<in>set (nvmSet names @ dataSet names @ spareSet names). byName n \<noteq> None" and len: "length (dataSet names) \<le> 2 ^ 32"
  shows "\<exists>r. ArrayDeviceManager_CheckConstraints ub l = Inr r \<and>
         (r = 0 \<longrightarrow> (\<forall>u\<in>set (devBlocks l). ubAlive (ub u)) \<and> sizes_ok (sizeOf ub byName) names)"
proof (cases "ArrayDeviceManager_CheckDevs ub l = 0 \<and> dataSet names \<noteq> []")
  case True
  have alive: "\<forall>u\<in>set (devBlocks l). ubAlive (ub u)"
    using True by (auto simp: ArrayDeviceManager_CheckDevs_def CheckAlive_blocks devBlocks_def split: if_splits)
  have act: "ArrayDeviceManager_CheckActiveSsdsCount (dataDevs l) = 0"
    using True by (simp add: d ArrayDeviceManager_CheckActiveSsdsCount_def filter_empty_conv)
  obtain r1 where r1: "(if nvmDevs l \<noteq> [] then ArrayDeviceManager_CheckNvmCapacity ub l else Inr 0) = Inr r1"
    "r1 = 0 \<longrightarrow> (\<forall>n\<in>set (nvmSet names). 2 ^ 29 + (length (dataSet names) - 1) * 2 ^ 18 * 513 \<le> sizeOf ub byName n)"
  proof (cases "nvmSet names = []")
    case False
    then have "length (nvmSet names) = 1"
      using w n by (cases "nvmSet names") (auto simp: devs_wf_def)
    then obtain r where "ArrayDeviceManager_CheckNvmCapacity ub l = Inr r"
      "r = 0 \<longrightarrow> (\<forall>n\<in>set (nvmSet names). 2 ^ 29 + (length (dataSet names) - 1) * 2 ^ 18 * 513 \<le> sizeOf ub byName n)"
      using nvm_capacity_new [OF n _ _ d _ len, of ub] True ex by auto
    then show thesis
      using that [of r] False n by simp
  qed (use that n in auto)
  obtain r2 where r2: "ArrayDeviceManager_CheckSsdsCapacity ub l = Inr r2"
    "r2 = 0 \<longrightarrow> (\<exists>b\<in>sizeOf ub byName ` set (dataSet names). 20 * 2 ^ 30 \<le> b \<and> b \<le> 32 * 2 ^ 40 \<and>
                   (\<forall>n\<in>set (dataSet names @ spareSet names). b \<le> sizeOf ub byName n))"
    using ssds_capacity_new [OF d s, of ub] ex True by (metis Un_iff set_append)
  show ?thesis
    unfolding ArrayDeviceManager_CheckConstraints_def sizes_ok_def
    using True alive act r1 r2 by (cases "r1 = 0") simp_all
next
  case False
  then show ?thesis
    by (auto simp: ArrayDeviceManager_CheckConstraints_def ArrayDeviceManager_CheckActiveSsdsCount_def d
        ArrayDeviceManager_CheckDevs_def split: if_splits)
qed

text \<open>C36. Creating an array from device names never faults. When it succeeds the lists hold the named devices in order, each
  found and of the right type, all alive, with pairwise different names and marked as belonging to an array; the smallest data
  device is within the supported sizes, no spare is smaller than it, and the NVM holds the metadata and a stripe buffer for every
  volume, its GC and the rebuild.\<close>

theorem import_by_name_sound:
  assumes "length (dataSet names) \<le> 2 ^ 32"
  shows "\<exists>r l. ArrayDeviceManager_ImportByName byName ub names (ArrayDeviceList_new c) = Inr (r, l) \<and>
         (r = 0 \<longrightarrow> devs_wf ub l \<and> nvmDevs l = newDevs byName (nvmSet names) \<and> dataDevs l = newDevs byName (dataSet names) \<and>
            spareDevs l = newDevs byName (spareSet names) \<and>
            (\<forall>n\<in>set (nvmSet names). \<exists>u. byName n = Some u \<and> ubType (ub u) = NVRAM) \<and>
            (\<forall>n\<in>set (dataSet names @ spareSet names). \<exists>u. byName n = Some u \<and> ubType (ub u) = SSD) \<and>
            (\<forall>u\<in>set (devBlocks l). ubAlive (ub u)) \<and> sizes_ok (sizeOf ub byName) names)"
proof -
  obtain r1 l1 where 1: "importNames byName ub NVRAM (ArrayDeviceList_SetNvm ub) (nvmSet names) (ArrayDeviceList_new c) = Inr (r1, l1)"
      "devs_wf ub l1"
    using set_nvm.importNames_total [OF new_wf] by blast
  obtain r2 l2 where 2: "importNames byName ub SSD (ArrayDeviceList_AddData ub) (dataSet names) l1 = Inr (r2, l2)" "devs_wf ub l2"
    using add_data.importNames_total [OF 1(2)] by blast
  obtain r3 l3 where 3: "importNames byName ub SSD (ArrayDeviceList_AddSpare ub) (spareSet names) l2 = Inr (r3, l3)"
    using add_spare.importNames_total [OF 2(2)] by blast
  show ?thesis
  proof (cases "r1 = 0 \<and> r2 = 0 \<and> r3 = 0")
    case True
    have L: "devs_wf ub l3" "nvmDevs l3 = newDevs byName (nvmSet names)" "dataDevs l3 = newDevs byName (dataSet names)"
        "spareDevs l3 = newDevs byName (spareSet names)"
        "\<forall>n\<in>set (nvmSet names). \<exists>u. byName n = Some u \<and> ubType (ub u) = NVRAM"
        "\<forall>n\<in>set (dataSet names @ spareSet names). \<exists>u. byName n = Some u \<and> ubType (ub u) = SSD"
      using import_loops [of byName ub names c l1 l2 l3] 1(1) 2(1) 3 True by simp_all
    have ex: "\<forall>n\<in>set (nvmSet names @ dataSet names @ spareSet names). byName n \<noteq> None"
      using L(5,6) by auto
    obtain r where r: "ArrayDeviceManager_CheckConstraints ub l3 = Inr r"
        "r = 0 \<longrightarrow> (\<forall>u\<in>set (devBlocks l3). ubAlive (ub u)) \<and> sizes_ok (sizeOf ub byName) names"
      using constraints_total [OF L(1-4) ex assms] by blast
    have "ArrayDeviceManager_ImportByName byName ub names (ArrayDeviceList_new c) = Inr (r, l3)"
      unfolding ArrayDeviceManager_ImportByName_def using 1(1) 2(1) 3 True r(1) by simp
    then show ?thesis
      using r(2) L by blast
  next
    case False
    then show ?thesis
      unfolding ArrayDeviceManager_ImportByName_def using 1(1) 2(1) 3 by (cases "r1 = 0"; cases "r2 = 0") simp_all
  qed
qed

definition exUb :: "nat \<Rightarrow> UBlock" where
  "exUb u = \<lparr>ubName = replicate (Suc u) CHR ''d'', ubSN = replicate (Suc u) CHR ''s'', ubType = (if u = 0 then NVRAM else SSD),
             ubSize = 30 * 2 ^ 30, ubAlive = True\<rparr>"

definition exByName :: "string \<Rightarrow> nat option" where
  "exByName n = (if n \<noteq> [] \<and> length n \<le> 5 \<and> hd n = CHR ''d'' then Some (length n - 1) else None)"

definition exBySn :: "string \<Rightarrow> nat option" where
  "exBySn n = (if n \<noteq> [] \<and> length n \<le> 4 \<and> hd n = CHR ''s'' then Some (length n - 1) else None)"

definition exNames :: "string DeviceSet" where
  "exNames = \<lparr>nvmSet = [''d''], dataSet = [''dd'', ''ddd'', ''dddd''], spareSet = [''ddddd'']\<rparr>"

lemma exImport: "(case ArrayDeviceManager_ImportByName exByName exUb exNames (ArrayDeviceList_new (\<lambda>_. SYSTEM)) of
                    Inr (r, l) \<Rightarrow> r = 0 | Inl _ \<Rightarrow> False)"
  by (simp add: exNames_def exByName_def exUb_def ArrayDeviceList_new_def ArrayDeviceManager_ImportByName_def
      ArrayDeviceManager_CheckConstraints_def ArrayDeviceManager_CheckDevs_def ArrayDeviceManager_CheckActiveSsdsCount_def
      ArrayDeviceManager_CheckNvmCapacity_def ArrayDeviceManager_CheckSsdsCapacity_def ArrayDeviceManager_GetBaseCapacity_def
      ArrayDeviceManager_ComputeMinNvmCapacity_def ArrayDeviceList_SetNvm_def ArrayDeviceList_AddData_def
      ArrayDeviceList_AddSpare_def ArrayDeviceList_Exists_def ArrayDeviceList_FindNvm_def ArrayDeviceList_FindData_def
      ArrayDevice_new_def hasName_def SetClass_def Let_def u32_def u64_def)

lemma import_by_name_sound_witness:
  "\<exists>l. ArrayDeviceManager_ImportByName exByName exUb exNames (ArrayDeviceList_new (\<lambda>_. SYSTEM)) = Inr (0, l) \<and> devs_wf exUb l \<and>
       length (dataDevs l) = 3 \<and> sizes_ok (sizeOf exUb exByName) exNames"
proof -
  have "length (dataSet exNames) \<le> 2 ^ 32" "length (dataSet exNames) = 3"
    by (simp_all add: exNames_def)
  then show ?thesis
    using import_by_name_sound [of exNames exByName exUb "\<lambda>_. SYSTEM"] exImport by auto
qed

section \<open>The metadata of the array\<close>

text \<open>What a data device is after it has been stored and loaded again: a faulty device stays faulty and forgets its block
  device, and so does a device that is not found any more.\<close>

definition reloaded :: "(string \<Rightarrow> nat option) \<Rightarrow> (nat \<Rightarrow> UBlock) \<Rightarrow> ArrayDevice \<Rightarrow> ArrayDevice" where
  "reloaded bySn ub d =
     (if adState d \<noteq> ArrayDeviceState.FAULT \<and> (\<exists>u. uBlock d = Some u \<and> bySn (ubSN (ub u)) = Some u) then d
      else ArrayDevice_new None ArrayDeviceState.FAULT)"

definition isFound :: "(string \<Rightarrow> nat option) \<Rightarrow> (nat \<Rightarrow> UBlock) \<Rightarrow> ArrayDevice \<Rightarrow> bool" where
  "isFound bySn ub d \<longleftrightarrow> (\<exists>u. uBlock d = Some u \<and> bySn (ubSN (ub u)) = Some u)"

text \<open>The device manager finds a device of the array under its serial number, or no device.\<close>

definition sn_faithful :: "(string \<Rightarrow> nat option) \<Rightarrow> (nat \<Rightarrow> UBlock) \<Rightarrow> ArrayDeviceList \<Rightarrow> bool" where
  "sn_faithful bySn ub l \<longleftrightarrow> (\<forall>u\<in>set (devBlocks l). bySn (ubSN (ub u)) \<in> {None, Some u})"

lemma ArrayDevice_eq: "ArrayDevice_new (uBlock d) (adState d) = d"
  by (simp add: ArrayDevice_new_def)

lemma data_meta_reloaded:
  assumes "\<And>u. uBlock d = Some u \<Longrightarrow> bySn (ubSN (ub u)) \<in> {None, Some u}"
  shows "dataFromMeta bySn (dataToMeta ub d) = reloaded bySn ub d"
  using assms ArrayDevice_eq [of d] unfolding dataFromMeta_def dataToMeta_def reloaded_def by (cases "uBlock d") auto

abbreviation (input) namesOf :: "(nat \<Rightarrow> UBlock) \<Rightarrow> nat list \<Rightarrow> string list" where
  "namesOf ub us \<equiv> map (\<lambda>u. ubName (ub u)) us"

lemma AddData_fresh:
  assumes "devs_wf ub l" "\<forall>u. uBlock d = Some u \<longrightarrow> ubName (ub u) \<notin> set (namesOf ub (devBlocks l))"
  shows "\<exists>r l'. ArrayDeviceList_AddData ub d l = Inr (r, l') \<and> devs_wf ub l' \<and> dataDevs l' = dataDevs l @ [d] \<and>
           nvmDevs l' = nvmDevs l \<and> spareDevs l' = spareDevs l"
proof (cases "uBlock d")
  case None
  then show ?thesis
    using assms(1) by (auto simp: ArrayDeviceList_AddData_def devs_wf_def devBlocks_def)
next
  case (Some u)
  have e: "ArrayDevice_new (Some u) (adState d) = d"
    using Some by (metis ArrayDevice_eq)
  show ?thesis
    using AddData_cases [OF assms(1), of u "adState d"] SetClass_wf_append(1) [OF assms(1), of u "adState d"] assms(2) Some
    unfolding e by auto
qed

lemma importData_fresh:
  assumes "devs_wf ub l" "distinct (namesOf ub (blocksOf (map (dataFromMeta bySn) ms)))"
    "set (namesOf ub (devBlocks l)) \<inter> set (namesOf ub (blocksOf (map (dataFromMeta bySn) ms))) = {}"
  shows "\<exists>l'. importData bySn ub ms l = Inr l' \<and> devs_wf ub l' \<and> dataDevs l' = dataDevs l @ map (dataFromMeta bySn) ms \<and>
           nvmDevs l' = nvmDevs l \<and> spareDevs l' = spareDevs l"
  using assms
proof (induction ms arbitrary: l)
  case (Cons m ms)
  let ?d = "dataFromMeta bySn m"
  have "\<forall>u. uBlock ?d = Some u \<longrightarrow> ubName (ub u) \<notin> set (namesOf ub (devBlocks l))"
    using Cons.prems(3) by auto
  then obtain r l1 where a: "ArrayDeviceList_AddData ub ?d l = Inr (r, l1)" "devs_wf ub l1" "dataDevs l1 = dataDevs l @ [?d]"
      "nvmDevs l1 = nvmDevs l" "spareDevs l1 = spareDevs l"
    using AddData_fresh [OF Cons.prems(1)] by blast
  have "set (devBlocks l1) = set (blocksOf [?d]) \<union> set (devBlocks l)"
    using a(3-5) by (auto simp: devBlocks_def split: option.splits)
  then have "set (namesOf ub (devBlocks l1)) \<inter> set (namesOf ub (blocksOf (map (dataFromMeta bySn) ms))) = {}"
      "distinct (namesOf ub (blocksOf (map (dataFromMeta bySn) ms)))"
    using Cons.prems(2,3) by (cases "uBlock ?d"; simp add: image_Un Int_Un_distrib2)+
  then obtain l2 where "importData bySn ub ms l1 = Inr l2" "devs_wf ub l2" "dataDevs l2 = dataDevs l1 @ map (dataFromMeta bySn) ms"
      "nvmDevs l2 = nvmDevs l1" "spareDevs l2 = spareDevs l1"
    using Cons.IH [OF a(2)] by blast
  then show ?case
    using a by simp
qed simp

lemma importSpares_fresh:
  assumes "devs_wf ub l" "distinct (namesOf ub (blocksOf ds))" "\<forall>d\<in>set ds. adState d = ArrayDeviceState.NORMAL \<and> uBlock d \<noteq> None"
    "set (namesOf ub (devBlocks l)) \<inter> set (namesOf ub (blocksOf ds)) = {}"
    "\<forall>u\<in>set (blocksOf ds). bySn (ubSN (ub u)) \<in> {None, Some u}"
  shows "\<exists>l'. importSpares bySn ub (map (\<lambda>d. \<lparr>metaUid = ubSN (ub (the (uBlock d))), metaState = adState d\<rparr>) ds) l = Inr l' \<and>
           devs_wf ub l' \<and> spareDevs l' = spareDevs l @ filter (isFound bySn ub) ds \<and> nvmDevs l' = nvmDevs l \<and> dataDevs l' = dataDevs l"
  using assms
proof (induction ds arbitrary: l)
  case (Cons d ds)
  obtain u where u: "uBlock d = Some u"
    using Cons.prems(3) by auto
  have e: "ArrayDevice_new (Some u) ArrayDeviceState.NORMAL = d"
    using u Cons.prems(3) by (metis ArrayDevice_eq list.set_intros(1))
  show ?case
  proof (cases "bySn (ubSN (ub u))")
    case None
    then show ?thesis
      using Cons.IH [OF Cons.prems(1)] Cons.prems(2-5) u by (simp add: isFound_def)
  next
    case (Some v)
    then have v: "bySn (ubSN (ub u)) = Some u"
      using Cons.prems(5) u by simp
    let ?l1 = "(SetClass ARRAY u l)\<lparr>spareDevs := spareDevs l @ [d]\<rparr>"
    have nin: "ubName (ub u) \<notin> (\<lambda>u. ubName (ub u)) ` set (devBlocks l)"
      using Cons.prems(4) u by auto
    have add: "ArrayDeviceList_AddSpare ub d l = Inr (0, ?l1)" and wf: "devs_wf ub ?l1"
      using AddSpare_cases [OF Cons.prems(1), of u ArrayDeviceState.NORMAL] nin
        SetClass_wf_append(2) [OF Cons.prems(1) nin, of ArrayDeviceState.NORMAL] unfolding e by simp_all
    have "set (devBlocks ?l1) = insert u (set (devBlocks l))"
      using u by (auto simp: devBlocks_def)
    then have "set (namesOf ub (devBlocks ?l1)) \<inter> set (namesOf ub (blocksOf ds)) = {}"
      using Cons.prems(2,4) u by simp
    then obtain l2 where "importSpares bySn ub (map (\<lambda>d. \<lparr>metaUid = ubSN (ub (the (uBlock d))), metaState = adState d\<rparr>) ds) ?l1 = Inr l2"
        "devs_wf ub l2" "spareDevs l2 = spareDevs ?l1 @ filter (isFound bySn ub) ds" "nvmDevs l2 = nvmDevs ?l1" "dataDevs l2 = dataDevs ?l1"
      using Cons.IH [OF wf] Cons.prems(2,3,5) u by auto
    moreover have "isFound bySn ub d"
      using u v by (simp add: isFound_def)
    ultimately show ?thesis
      using add u v e by simp
  qed
qed simp

lemma reloaded_blocks:
  "distinct (namesOf ub (blocksOf ds)) \<Longrightarrow> distinct (namesOf ub (blocksOf (map (reloaded bySn ub) ds)))"
  "set (blocksOf (map (reloaded bySn ub) ds)) \<subseteq> set (blocksOf ds)"
proof -
  show sub: "set (blocksOf (map (reloaded bySn ub) ds)) \<subseteq> set (blocksOf ds)" for ds
    by (auto simp: set_blocksOf reloaded_def)
  show "distinct (namesOf ub (blocksOf ds)) \<Longrightarrow> distinct (namesOf ub (blocksOf (map (reloaded bySn ub) ds)))"
  proof (induction ds)
    case (Cons d ds)
    show ?case
    proof (cases "uBlock (reloaded bySn ub d)")
      case None
      then show ?thesis
        using Cons by (simp split: option.splits)
    next
      case (Some u)
      then have "uBlock d = Some u"
        by (auto simp: reloaded_def split: if_splits)
      then show ?thesis
        using Cons Some sub [of ds] by auto
    qed
  qed simp
qed

lemma importNvm_fresh:
  assumes "length ds \<le> 1" "\<forall>d\<in>set ds. adState d = ArrayDeviceState.NORMAL \<and> isFound bySn ub d"
  shows "\<exists>l. importNvm bySn ub (map (\<lambda>d. \<lparr>metaUid = ubSN (ub (the (uBlock d))), metaState = adState d\<rparr>) ds) (ArrayDeviceList_new c) =
             Inr (0, l) \<and> devs_wf ub l \<and> nvmDevs l = ds \<and> dataDevs l = [] \<and> spareDevs l = []"
proof (cases ds)
  case (Cons d ds')
  obtain u where u: "uBlock d = Some u" "bySn (ubSN (ub u)) = Some u"
    using assms Cons by (auto simp: isFound_def)
  have e: "ArrayDevice_new (Some u) ArrayDeviceState.NORMAL = d"
    using u assms(2) Cons by (metis ArrayDevice_eq list.set_intros(1))
  have "ArrayDeviceList_SetNvm ub d (ArrayDeviceList_new c) = Inr (0, (SetClass ARRAY u (ArrayDeviceList_new c))\<lparr>nvmDevs := [d]\<rparr>)"
    "devs_wf ub ((SetClass ARRAY u (ArrayDeviceList_new c))\<lparr>nvmDevs := [d]\<rparr>)"
    using SetNvm_cases [OF new_wf, of ub u ArrayDeviceState.NORMAL c]
      SetClass_wf_append(3) [OF new_wf, of ub u c ArrayDeviceState.NORMAL] unfolding e by (simp_all add: devBlocks_def)
  then show ?thesis
    using Cons assms(1) u e by simp
qed simp

lemma wf_names:
  assumes "devs_wf ub l"
  shows "distinct (namesOf ub (blocksOf (dataDevs l)))" "distinct (namesOf ub (blocksOf (spareDevs l)))"
    "set (namesOf ub (blocksOf (nvmDevs l))) \<inter> set (namesOf ub (blocksOf (dataDevs l))) = {}"
    "set (namesOf ub (blocksOf (nvmDevs l) @ blocksOf (dataDevs l))) \<inter> set (namesOf ub (blocksOf (spareDevs l))) = {}"
  using assms by (auto simp: devs_wf_def devBlocks_def)

lemma import_data_reloads:
  assumes wf: "devs_wf ub l" and sn: "sn_faithful bySn ub l" and "devs_wf ub l1" "nvmDevs l1 = nvmDevs l" "dataDevs l1 = []" "spareDevs l1 = []"
  shows "\<exists>l2. importData bySn ub (map (dataToMeta ub) (dataDevs l)) l1 = Inr l2 \<and> devs_wf ub l2 \<and>
           dataDevs l2 = map (reloaded bySn ub) (dataDevs l) \<and> nvmDevs l2 = nvmDevs l \<and> spareDevs l2 = []"
proof -
  have "dataFromMeta bySn (dataToMeta ub d) = reloaded bySn ub d" if d: "d \<in> set (dataDevs l)" for d
  proof (rule data_meta_reloaded)
    fix u
    assume "uBlock d = Some u"
    then have "u \<in> set (devBlocks l)"
      using d by (auto simp: devBlocks_def set_blocksOf)
    then show "bySn (ubSN (ub u)) \<in> {None, Some u}"
      using sn by (simp add: sn_faithful_def)
  qed
  then have dat: "map (dataFromMeta bySn) (map (dataToMeta ub) (dataDevs l)) = map (reloaded bySn ub) (dataDevs l)"
    by simp
  have "set (namesOf ub (devBlocks l1)) \<inter> set (namesOf ub (blocksOf (map (reloaded bySn ub) (dataDevs l)))) = {}"
    using wf_names(3) [OF wf] reloaded_blocks(2) [of bySn ub "dataDevs l"] by (fastforce simp: devBlocks_def assms(4-6))
  then show ?thesis
    using importData_fresh [OF assms(3), of bySn "map (dataToMeta ub) (dataDevs l)"] reloaded_blocks(1) [OF wf_names(1) [OF wf]]
      assms(4-6) unfolding dat by simp
qed

lemma import_spares_found:
  assumes wf: "devs_wf ub l" and sn: "sn_faithful bySn ub l" and "devs_wf ub l2" "nvmDevs l2 = nvmDevs l"
    and "dataDevs l2 = map (reloaded bySn ub) (dataDevs l)" "spareDevs l2 = []" "\<forall>d\<in>set (spareDevs l). adState d = ArrayDeviceState.NORMAL"
  shows "\<exists>l3. importSpares bySn ub (map (\<lambda>d. \<lparr>metaUid = ubSN (ub (the (uBlock d))), metaState = adState d\<rparr>) (spareDevs l)) l2 = Inr l3 \<and>
           devs_wf ub l3 \<and> spareDevs l3 = filter (isFound bySn ub) (spareDevs l) \<and> nvmDevs l3 = nvmDevs l2 \<and> dataDevs l3 = dataDevs l2"
proof -
  have "set (devBlocks l2) \<subseteq> set (blocksOf (nvmDevs l) @ blocksOf (dataDevs l))"
    using reloaded_blocks(2) [of bySn ub "dataDevs l"] by (auto simp: devBlocks_def assms(4-6))
  then have "set (namesOf ub (devBlocks l2)) \<inter> set (namesOf ub (blocksOf (spareDevs l))) = {}"
    using wf_names(4) [OF wf] by fastforce
  moreover have "\<forall>d\<in>set (spareDevs l). adState d = ArrayDeviceState.NORMAL \<and> uBlock d \<noteq> None"
    using wf assms(7) by (simp add: devs_wf_def)
  moreover have "\<forall>u\<in>set (blocksOf (spareDevs l)). bySn (ubSN (ub u)) \<in> {None, Some u}"
    using sn by (simp add: sn_faithful_def devBlocks_def)
  ultimately show ?thesis
    using importSpares_fresh [OF assms(3) wf_names(2) [OF wf], of bySn] assms(6) by simp
qed

text \<open>C37. Storing the devices of an array in its metadata and loading them again gives the same array: the NVM device, every
  data device at its position with its state, and the spares in their order. A data device that was faulty, had no block device
  or is not found any more comes back as faulty at the same position, and a spare that is not found is left out. The device
  manager must find each device under its own serial number or not at all, the NVM must be there, and one normal data device
  too.\<close>

theorem device_meta_roundtrip:
  assumes wf: "devs_wf ub l" and sn: "sn_faithful bySn ub l"
    and nvm: "\<forall>d\<in>set (nvmDevs l). adState d = ArrayDeviceState.NORMAL \<and> isFound bySn ub d"
    and spare: "\<forall>d\<in>set (spareDevs l). adState d = ArrayDeviceState.NORMAL"
    and active: "\<exists>d\<in>set (dataDevs l). adState d = ArrayDeviceState.NORMAL \<and> isFound bySn ub d"
  shows "\<exists>m l'. ArrayDeviceManager_ExportToMeta ub l = Inr m \<and>
           ArrayDeviceManager_Import bySn ub m (ArrayDeviceList_new c) = Inr (0, l') \<and> devs_wf ub l' \<and>
           nvmDevs l' = nvmDevs l \<and> dataDevs l' = map (reloaded bySn ub) (dataDevs l) \<and>
           spareDevs l' = filter (isFound bySn ub) (spareDevs l)"
proof -
  let ?toMeta = "\<lambda>d. \<lparr>metaUid = ubSN (ub (the (uBlock d))), metaState = adState d\<rparr>"
  define m where "m = \<lparr>nvmSet = map ?toMeta (nvmDevs l), dataSet = map (dataToMeta ub) (dataDevs l), spareSet = map ?toMeta (spareDevs l)\<rparr>"
  have one: "length (nvmDevs l) \<le> 1" "take 1 (nvmDevs l) = nvmDevs l" and blocks: "\<forall>d\<in>set (spareDevs l). uBlock d \<noteq> None"
    using wf by (auto simp: devs_wf_def)
  have exp: "ArrayDeviceManager_ExportToMeta ub l = Inr m"
    using nvm blocks one(2) by (auto simp: ArrayDeviceManager_ExportToMeta_def m_def isFound_def Let_def)
  obtain l1 where l1: "importNvm bySn ub (nvmSet m) (ArrayDeviceList_new c) = Inr (0, l1)" "devs_wf ub l1" "nvmDevs l1 = nvmDevs l"
      "dataDevs l1 = []" "spareDevs l1 = []"
    using importNvm_fresh [OF one(1) nvm] by (auto simp: m_def)
  obtain l2 where l2: "importData bySn ub (dataSet m) l1 = Inr l2" "devs_wf ub l2"
      "dataDevs l2 = map (reloaded bySn ub) (dataDevs l)" "nvmDevs l2 = nvmDevs l" "spareDevs l2 = []"
    using import_data_reloads [OF wf sn l1(2-5)] by (auto simp: m_def)
  obtain d where "d \<in> set (dataDevs l)" "adState d = ArrayDeviceState.NORMAL" "isFound bySn ub d"
    using active by blast
  then have "reloaded bySn ub d \<in> set (dataDevs l2)" "adState (reloaded bySn ub d) = ArrayDeviceState.NORMAL"
    by (auto simp: l2(3) reloaded_def isFound_def)
  then have act: "ArrayDeviceManager_CheckActiveSsdsCount (dataDevs l2) = 0"
    by (auto simp: ArrayDeviceManager_CheckActiveSsdsCount_def filter_empty_conv)
  obtain l3 where l3: "importSpares bySn ub (spareSet m) l2 = Inr l3" "devs_wf ub l3"
      "spareDevs l3 = filter (isFound bySn ub) (spareDevs l)" "nvmDevs l3 = nvmDevs l2" "dataDevs l3 = dataDevs l2"
    using import_spares_found [OF wf sn l2(2,4,3,5) spare] by (auto simp: m_def)
  have "ArrayDeviceManager_Import bySn ub m (ArrayDeviceList_new c) = Inr (0, l3)"
    unfolding ArrayDeviceManager_Import_def using l1(1) l2(1) act l3(1) by simp
  then show ?thesis
    using exp l3 l2(3,4) by auto
qed

definition exDevs :: ArrayDeviceList where
  "exDevs = \<lparr>nvmDevs = [ArrayDevice_new (Some 0) ArrayDeviceState.NORMAL],
             dataDevs = [ArrayDevice_new (Some 1) ArrayDeviceState.NORMAL, ArrayDevice_new None ArrayDeviceState.FAULT,
                         ArrayDevice_new (Some 2) ArrayDeviceState.REBUILD],
             spareDevs = [ArrayDevice_new (Some 3) ArrayDeviceState.NORMAL, ArrayDevice_new (Some 4) ArrayDeviceState.NORMAL],
             devClass = (\<lambda>_. ARRAY)\<rparr>"

lemma device_meta_roundtrip_witness:
  "\<exists>m l'. ArrayDeviceManager_ExportToMeta exUb exDevs = Inr m \<and>
     ArrayDeviceManager_Import exBySn exUb m (ArrayDeviceList_new (\<lambda>_. SYSTEM)) = Inr (0, l') \<and> dataDevs l' = dataDevs exDevs \<and>
     spareDevs l' = [ArrayDevice_new (Some 3) ArrayDeviceState.NORMAL]"
proof -
  have b: "devBlocks exDevs = [0, 1, 2, 3, 4]"
    by (simp add: devBlocks_def exDevs_def)
  have "inj_on (\<lambda>u. ubName (exUb u)) {0, 1, 2, 3, 4}"
    by (rule inj_on_inverseI [where g = "\<lambda>n. length n - 1"]) (simp add: exUb_def)
  then have w: "devs_wf exUb exDevs" "sn_faithful exBySn exUb exDevs"
    unfolding devs_wf_def sn_faithful_def b distinct_map by (simp_all add: exDevs_def exUb_def exBySn_def)
  have n: "\<forall>d\<in>set (nvmDevs exDevs). adState d = ArrayDeviceState.NORMAL \<and> isFound exBySn exUb d"
    "\<forall>d\<in>set (spareDevs exDevs). adState d = ArrayDeviceState.NORMAL"
    "\<exists>d\<in>set (dataDevs exDevs). adState d = ArrayDeviceState.NORMAL \<and> isFound exBySn exUb d"
    by (simp_all add: exDevs_def exUb_def exBySn_def isFound_def)
  have r: "map (reloaded exBySn exUb) (dataDevs exDevs) = dataDevs exDevs"
    "filter (isFound exBySn exUb) (spareDevs exDevs) = [ArrayDevice_new (Some 3) ArrayDeviceState.NORMAL]"
    by (simp_all add: exDevs_def exUb_def exBySn_def reloaded_def isFound_def)
  show ?thesis
    using device_meta_roundtrip [OF w n, of "\<lambda>_. SYSTEM"] unfolding r by blast
qed

end
