(* ===== verification/Spec2Isabelle.thy ===== *)
theory Spec2Isabelle
  imports Bitmap ContextManager ContextIoManager PartitionManager StripeLocker ArrayState ArrayDevices
begin

text \<open>
  A verification development for PoseidonOS.
\<close>

end
